theory Spec2Isabelle
  imports
    Complex_Main
    "HOL-Library.Sublist"
    "HOL-Library.Char_ord"
    "HOL-Library.List_Lexorder"
begin

section \<open>The benchmark harness \<^verbatim>\<open>run_benchmarks.py\<close>\<close>

text \<open>
  The script discovers benchmark algorithms in two directories, runs the external engine
  once for each, scrapes two numbers out of the engine's log file, averages them and dumps
  a table as JSON.  It is modelled as a function of the outside world: directory listings,
  file contents and the engine are parameters, every operating-system call that returns is
  an event of a trace, and every exception is a value.

  Text is a list of characters.  The log text is what Python's text layer delivers (decoded,
  newlines translated to \<^verbatim>\<open>\n\<close>); the digits of \<^verbatim>\<open>\d\<close> are the ten ASCII digits;
  paths are joined the POSIX way.  Console output (\<^verbatim>\<open>print\<close>) is not modelled.
\<close>

subsection \<open>Log scraping\<close>

definition is_digit :: "char \<Rightarrow> bool" where
  "is_digit c = (c \<in> set ''0123456789'')"

definition digit_value :: "char \<Rightarrow> int" where
  "digit_value c = int (of_char c) - 48"

text \<open>
  \<^verbatim>\<open>int(match)\<close> on a string of decimal digits, of any length (the limit that newer
  interpreters put on the number of digits is not modelled).
\<close>

definition int_of_digits :: "string \<Rightarrow> int" where
  "int_of_digits s = foldl (\<lambda>a c. 10 * a + digit_value c) 0 s"

definition dps_suffix :: string where
  "dps_suffix = ''k data points per second''"

definition length_prefix :: string where
  "length_prefix = '' completed in ''"

text \<open>
  One attempt of the regular expression \<^verbatim>\<open>(\d+)k data points per second\<close> at the start of
  \<open>s\<close>.  The group is greedy: it first takes the whole run of digits and gives digits back
  one at a time (\<open>backtrack_dps\<close>) until the literal matches behind it.  The result is the
  group and the text behind the match.
\<close>

fun backtrack_dps :: "nat \<Rightarrow> string \<Rightarrow> (string \<times> string) option" where
  "backtrack_dps 0 s = None"
| "backtrack_dps (Suc k) s =
     (if prefix dps_suffix (drop (Suc k) s)
      then Some (take (Suc k) s, drop (Suc k + length dps_suffix) s)
      else backtrack_dps k s)"

definition match_dps :: "string \<Rightarrow> (string \<times> string) option" where
  "match_dps s = backtrack_dps (length (takeWhile is_digit s)) s"

text \<open>
  One attempt of \<^verbatim>\<open> completed in (\d+)\<close> at the start of \<open>s\<close>: the literal, then the greedy
  group, with nothing behind it that could force it to give a digit back.
\<close>

definition match_length :: "string \<Rightarrow> (string \<times> string) option" where
  "match_length s =
     (if prefix length_prefix s
      then (let t = drop (length length_prefix) s in
            if takeWhile is_digit t = [] then None
            else Some (takeWhile is_digit t, dropWhile is_digit t))
      else None)"

text \<open>
  \<^verbatim>\<open>re.findall(pattern, line)\<close>: scan from the left; where the pattern matches, keep the
  group and go on behind the match; where it does not, go on one character further.
\<close>

function findall_dps :: "string \<Rightarrow> string list" where
  "findall_dps s =
     (case match_dps s of
        Some (g, rest) \<Rightarrow> g # findall_dps rest
      | None \<Rightarrow> (case s of [] \<Rightarrow> [] | c # cs \<Rightarrow> findall_dps cs))"
  by pat_completeness auto
termination
proof (relation "measure length")
  fix s :: string and x g rest
  assume m: "match_dps s = Some x" "(g, rest) = x"
  have "backtrack_dps k s = Some (g, rest) \<Longrightarrow> k \<le> length s \<Longrightarrow> length rest < length s" for k
    by (induction k) (auto split: if_splits)
  from this [of "length (takeWhile is_digit s)"] m
  show "(rest, s) \<in> measure length"
    by (simp add: match_dps_def length_takeWhile_le)
qed auto

function findall_length :: "string \<Rightarrow> string list" where
  "findall_length s =
     (case match_length s of
        Some (g, rest) \<Rightarrow> g # findall_length rest
      | None \<Rightarrow> (case s of [] \<Rightarrow> [] | c # cs \<Rightarrow> findall_length cs))"
  by pat_completeness auto
termination
proof (relation "measure length")
  fix s :: string and x g rest
  assume m: "match_length s = Some x" "(g, rest) = x"
  have "length (dropWhile is_digit t) \<le> length t" for t
    by (rule length_dropWhile_le)
  from this [of "drop (length length_prefix) s"] m
  show "(rest, s) \<in> measure length"
    by (auto simp: match_length_def Let_def length_prefix_def prefix_def split: if_splits)
qed auto

declare findall_dps.simps [simp del] findall_length.simps [simp del]

text \<open>
  \<^verbatim>\<open>for line in file\<close>: the text is cut behind every newline, and each line keeps its
  newline.
\<close>

fun file_lines :: "string \<Rightarrow> string list" where
  "file_lines [] = []"
| "file_lines (c # cs) =
     (if c = CHR 0x0A then [c] # file_lines cs
      else (case file_lines cs of [] \<Rightarrow> [[c]] | l # ls \<Rightarrow> (c # l) # ls))"

text \<open>
  The body of \<^verbatim>\<open>for line in file\<close>: both accumulators are extended by the integers of the
  line's matches.
\<close>

fun scrape_lines :: "string list \<Rightarrow> int list \<times> int list \<Rightarrow> int list \<times> int list" where
  "scrape_lines [] acc = acc"
| "scrape_lines (line # lines) (dataPointsPerSecond, benchmarkLengths) =
     scrape_lines lines
       (dataPointsPerSecond @ map int_of_digits (findall_dps line),
        benchmarkLengths @ map int_of_digits (findall_length line))"

subsection \<open>Strings and paths\<close>

text \<open>\<^verbatim>\<open>s.index(c)\<close>: the first position of \<open>c\<close>; \<open>None\<close> where Python raises ValueError.\<close>

fun str_index :: "string \<Rightarrow> char \<Rightarrow> nat option" where
  "str_index [] c = None"
| "str_index (x # xs) c = (if x = c then Some 0 else map_option Suc (str_index xs c))"

text \<open>\<^verbatim>\<open>s.rfind(c)\<close>: the last position of \<open>c\<close>; \<open>None\<close> for Python's -1.\<close>

fun rfind :: "string \<Rightarrow> char \<Rightarrow> nat option" where
  "rfind [] c = None"
| "rfind (x # xs) c =
     (case rfind xs c of
        Some i \<Rightarrow> Some (Suc i)
      | None \<Rightarrow> (if x = c then Some 0 else None))"

text \<open>\<^verbatim>\<open>s[i:j]\<close> for indices that are not negative.\<close>

definition slice :: "string \<Rightarrow> nat \<Rightarrow> nat \<Rightarrow> string" where
  "slice s i j = take (j - i) (drop i s)"

text \<open>\<^verbatim>\<open>s.endswith(suffixes)\<close> with a tuple of suffixes: true when \<open>s\<close> ends with one of them.\<close>

definition endswith :: "string \<Rightarrow> string list \<Rightarrow> bool" where
  "endswith s sufs = list_ex (\<lambda>suf. suffix suf s) sufs"

text \<open>
  \<^verbatim>\<open>Path(algorithmFile).stem\<close>.  A directory entry has no slash in it, so the path's final
  component is the entry itself; pathlib takes the last dot of it, and cuts there unless
  that dot is the first or the last character.
\<close>

definition stem :: "string \<Rightarrow> string" where
  "stem name =
     (case rfind name CHR ''.'' of
        None \<Rightarrow> name
      | Some i \<Rightarrow> (if 0 < i \<and> i < length name - 1 then take i name else name))"

text \<open>\<^verbatim>\<open>os.path.join(a, *p)\<close> of posixpath.\<close>

fun os_path_join :: "string \<Rightarrow> string list \<Rightarrow> string" where
  "os_path_join path [] = path"
| "os_path_join path (b # p) =
     os_path_join
       (if prefix ''/'' b then b
        else if path = [] \<or> suffix ''/'' path then path @ b
        else path @ ''/'' @ b) p"

subsection \<open>Values, errors and the outside world\<close>

text \<open>
  The value that \<^verbatim>\<open>json.dump\<close> writes.  A Python dict keeps its keys in the order of their
  first insertion, so an object is a list of pairs.  Numbers are exact rationals, and the
  document is the value, not its serialised text.
\<close>

datatype json =
    JNull
  | JBool bool
  | JNumber rat
  | JString string
  | JArray "json list"
  | JObject "(string \<times> json) list"

type_synonym dict = "(string \<times> json) list"

text \<open>\<^verbatim>\<open>d[k] = v\<close>: a key already there keeps its place and takes the new value.\<close>

fun dict_set :: "dict \<Rightarrow> string \<Rightarrow> json \<Rightarrow> dict" where
  "dict_set [] k v = [(k, v)]"
| "dict_set ((k', v') # d) k v =
     (if k' = k then (k, v) # d else (k', v') # dict_set d k v)"

datatype error = OSError | ValueError | StatisticsError

text \<open>
  A file as the script reads it: its text, or an error that iterating over it raises
  part-way (an I/O error, or a decoding error, which is a ValueError).
\<close>

datatype contents = Text string | Broken error

text \<open>
  The file system the script sees: \<open>dirs p\<close> is what \<^verbatim>\<open>os.listdir(p)\<close> returns, in any
  order, \<open>files p\<close> is what \<^verbatim>\<open>open(p, 'r')\<close> gives, and \<open>writable p\<close> says whether
  \<^verbatim>\<open>open(p, 'w')\<close> succeeds.  \<open>None\<close> and \<open>False\<close> are where Python raises OSError.
\<close>

record world =
  dirs :: "string \<Rightarrow> string list option"
  files :: "string \<Rightarrow> contents option"
  writable :: "string \<Rightarrow> bool"

datatype stream = INHERIT | PIPE | DEVNULL

record command =
  args :: "string list"
  cwd :: string
  stdout :: stream
  stderr :: stream

text \<open>
  The engine is a black box: \<^verbatim>\<open>subprocess.run\<close> blocks until it has exited, after which the
  world is another one (the engine has written its log).  \<open>None\<close> is where the process
  cannot be started and \<^verbatim>\<open>subprocess.run\<close> raises OSError.  The exit status is not part of
  the result, because the script does not look at it.
\<close>

type_synonym engine = "command \<Rightarrow> world \<Rightarrow> world option"

text \<open>What the script has done to the outside world, in order; an operation that raised is not in it.\<close>

datatype event =
    Listdir string
  | Run command
  | Open string string
  | Write string json
  | Close string

record state =
  world :: world
  trace :: "event list"

definition emit :: "event list \<Rightarrow> state \<Rightarrow> state" where
  "emit evs s = s\<lparr>trace := trace s @ evs\<rparr>"

definition os_listdir :: "string \<Rightarrow> state \<Rightarrow> (error + string list) \<times> state" where
  "os_listdir path s =
     (case dirs (world s) path of
        None \<Rightarrow> (Inl OSError, s)
      | Some names \<Rightarrow> (Inr names, emit [Listdir path] s))"

definition subprocess_run :: "engine \<Rightarrow> command \<Rightarrow> state \<Rightarrow> (error + unit) \<times> state" where
  "subprocess_run eng cmd s =
     (case eng cmd (world s) of
        None \<Rightarrow> (Inl OSError, s)
      | Some w \<Rightarrow> (Inr (), emit [Run cmd] (s\<lparr>world := w\<rparr>)))"

definition open_read :: "string \<Rightarrow> state \<Rightarrow> (error + contents) \<times> state" where
  "open_read path s =
     (case files (world s) path of
        None \<Rightarrow> (Inl OSError, s)
      | Some f \<Rightarrow> (Inr f, emit [Open path ''r''] s))"

text \<open>
  \<^verbatim>\<open>statistics.mean(data)\<close>: StatisticsError on no data, else the mean, which the function
  computes exactly as a fraction; its conversion to a float at the end, with the rounding
  and the range of floats, is not modelled.
\<close>

definition mean :: "int list \<Rightarrow> error + rat" where
  "mean data =
     (if data = [] then Inl StatisticsError
      else Inr (of_int (sum_list data) / of_nat (length data)))"

subsection \<open>The harness\<close>

definition launcher_directory :: string where
  "launcher_directory = ''./Launcher/bin/Release''"

definition output_file :: string where
  "output_file = ''benchmark_results.json''"

text \<open>The arguments of \<^verbatim>\<open>subprocess.run\<close>.\<close>

definition engine_command :: "string \<Rightarrow> string \<Rightarrow> string \<Rightarrow> string \<Rightarrow> command" where
  "engine_command dataPath language algorithmName algorithmLocation =
     \<lparr>args =
        [''dotnet'',
         ''./QuantConnect.Lean.Launcher.dll'',
         ''--data-folder '' @ dataPath,
         ''--algorithm-language '' @ language,
         ''--algorithm-type-name '' @ algorithmName,
         ''--algorithm-location '' @ algorithmLocation,
         ''--log-handler ConsoleErrorLogHandler'',
         ''--close-automatically true''],
      cwd = launcher_directory,
      stdout = DEVNULL,
      stderr = DEVNULL\<rparr>"

text \<open>\<^verbatim>\<open>os.path.join("./Launcher/bin/Release", f"{algorithmName}-log.txt")\<close>\<close>

definition algorithm_logs :: "string \<Rightarrow> string" where
  "algorithm_logs algorithmName = os_path_join launcher_directory [algorithmName @ ''-log.txt'']"

text \<open>
  The body of \<^verbatim>\<open>for _ in range(1, 2)\<close>: run the engine, open its log (the script has no
  \<^verbatim>\<open>close\<close> for it and no \<^verbatim>\<open>with\<close> around it), and scrape every line into the two lists.
\<close>

definition repetition ::
  "engine \<Rightarrow> string \<Rightarrow> string \<Rightarrow> string \<Rightarrow> string \<Rightarrow> int list \<times> int list \<Rightarrow> state
    \<Rightarrow> (error + int list \<times> int list) \<times> state" where
  "repetition eng dataPath language algorithmName algorithmLocation acc s =
     (case subprocess_run eng
             (engine_command dataPath language algorithmName algorithmLocation) s of
        (Inl e, s1) \<Rightarrow> (Inl e, s1)
      | (Inr _, s1) \<Rightarrow>
          (let algorithmLogs = algorithm_logs algorithmName
           in case open_read algorithmLogs s1 of
                (Inl e, s2) \<Rightarrow> (Inl e, s2)
              | (Inr (Broken e), s2) \<Rightarrow> (Inl e, s2)
              | (Inr (Text t), s2) \<Rightarrow> (Inr (scrape_lines (file_lines t) acc), s2)))"

fun repetitions ::
  "engine \<Rightarrow> string \<Rightarrow> string \<Rightarrow> string \<Rightarrow> string \<Rightarrow> nat list \<Rightarrow> int list \<times> int list \<Rightarrow> state
    \<Rightarrow> (error + int list \<times> int list) \<times> state" where
  "repetitions eng dataPath language algorithmName algorithmLocation [] acc s = (Inr acc, s)"
| "repetitions eng dataPath language algorithmName algorithmLocation (i # rest) acc s =
     (case repetition eng dataPath language algorithmName algorithmLocation acc s of
        (Inl e, s') \<Rightarrow> (Inl e, s')
      | (Inr acc', s') \<Rightarrow>
          repetitions eng dataPath language algorithmName algorithmLocation rest acc' s')"

text \<open>The dict literal stored for one algorithm.\<close>

definition metric :: "rat \<Rightarrow> int list \<Rightarrow> rat \<Rightarrow> json" where
  "metric averageDps dataPointsPerSecond averageLength =
     JObject
       [(''average-dps'', JNumber averageDps),
        (''samples'', JArray (map (\<lambda>x. JNumber (of_int x)) dataPointsPerSecond)),
        (''average-length'', JNumber averageLength)]"

definition algorithm_location :: "string \<Rightarrow> string \<Rightarrow> string \<Rightarrow> string" where
  "algorithm_location baseDirectory language algorithmFile =
     (if language = ''CSharp'' then ''QuantConnect.Algorithm.CSharp.dll''
      else os_path_join ''../../../'' [baseDirectory, algorithmFile])"

text \<open>The body of the \<^verbatim>\<open>if\<close> inside the loop over the directory's entries.\<close>

definition benchmark_algorithm ::
  "engine \<Rightarrow> string \<Rightarrow> string \<Rightarrow> string \<Rightarrow> string \<Rightarrow> dict \<Rightarrow> state \<Rightarrow> (error + dict) \<times> state" where
  "benchmark_algorithm eng dataPath baseDirectory language algorithmFile resultsPerLanguage s =
     (let algorithmName = stem algorithmFile;
          algorithmLocation = algorithm_location baseDirectory language algorithmFile
      in case repetitions eng dataPath language algorithmName algorithmLocation [1..<2] ([], []) s of
           (Inl e, s') \<Rightarrow> (Inl e, s')
         | (Inr (dataPointsPerSecond, benchmarkLengths), s') \<Rightarrow>
             (case mean dataPointsPerSecond of
                Inl e \<Rightarrow> (Inl e, s')
              | Inr averageDps \<Rightarrow>
                  (case mean benchmarkLengths of
                     Inl e \<Rightarrow> (Inl e, s')
                   | Inr averageLength \<Rightarrow>
                       (Inr (dict_set resultsPerLanguage algorithmName
                               (metric averageDps dataPointsPerSecond averageLength)), s'))))"

text \<open>\<^verbatim>\<open>for algorithmFile in sorted(os.listdir(baseDirectory))\<close>, over the sorted entries.\<close>

fun benchmark_files ::
  "engine \<Rightarrow> string \<Rightarrow> string \<Rightarrow> string \<Rightarrow> string list \<Rightarrow> dict \<Rightarrow> state \<Rightarrow> (error + dict) \<times> state" where
  "benchmark_files eng dataPath baseDirectory language [] resultsPerLanguage s =
     (Inr resultsPerLanguage, s)"
| "benchmark_files eng dataPath baseDirectory language (algorithmFile # entries) resultsPerLanguage s =
     (if endswith algorithmFile [''py'', ''cs'']
      then (case benchmark_algorithm eng dataPath baseDirectory language algorithmFile
                   resultsPerLanguage s of
              (Inl e, s') \<Rightarrow> (Inl e, s')
            | (Inr resultsPerLanguage', s') \<Rightarrow>
                benchmark_files eng dataPath baseDirectory language entries resultsPerLanguage' s')
      else benchmark_files eng dataPath baseDirectory language entries resultsPerLanguage s)"

text \<open>
  \<^verbatim>\<open>baseDirectory[len("Algorithm") + 1:baseDirectory.index("/")]\<close>, with the ValueError of
  \<^verbatim>\<open>index\<close>.
\<close>

definition language_of :: "string \<Rightarrow> error + string" where
  "language_of baseDirectory =
     (case str_index baseDirectory CHR ''/'' of
        None \<Rightarrow> Inl ValueError
      | Some j \<Rightarrow> Inr (slice baseDirectory (length ''Algorithm'' + 1) j))"

text \<open>The body of \<^verbatim>\<open>for baseDirectory in [...]\<close>.\<close>

definition benchmark_directory ::
  "engine \<Rightarrow> string \<Rightarrow> string \<Rightarrow> dict \<Rightarrow> state \<Rightarrow> (error + dict) \<times> state" where
  "benchmark_directory eng dataPath baseDirectory results s =
     (case language_of baseDirectory of
        Inl e \<Rightarrow> (Inl e, s)
      | Inr language \<Rightarrow>
          (case os_listdir baseDirectory s of
             (Inl e, s1) \<Rightarrow> (Inl e, s1)
           | (Inr names, s1) \<Rightarrow>
               (case benchmark_files eng dataPath baseDirectory language (sort names) [] s1 of
                  (Inl e, s2) \<Rightarrow> (Inl e, s2)
                | (Inr resultsPerLanguage, s2) \<Rightarrow>
                    (Inr (dict_set results language (JObject resultsPerLanguage)), s2))))"

fun benchmark_directories ::
  "engine \<Rightarrow> string \<Rightarrow> string list \<Rightarrow> dict \<Rightarrow> state \<Rightarrow> (error + dict) \<times> state" where
  "benchmark_directories eng dataPath [] results s = (Inr results, s)"
| "benchmark_directories eng dataPath (baseDirectory # rest) results s =
     (case benchmark_directory eng dataPath baseDirectory results s of
        (Inl e, s') \<Rightarrow> (Inl e, s')
      | (Inr results', s') \<Rightarrow> benchmark_directories eng dataPath rest results' s')"

definition base_directories :: "string list" where
  "base_directories = [''Algorithm.CSharp/Benchmarks'', ''Algorithm.Python/Benchmarks'']"

text \<open>\<^verbatim>\<open>with open("benchmark_results.json", "w") as outfile: json.dump(results, outfile)\<close>\<close>

definition dump_results :: "dict \<Rightarrow> state \<Rightarrow> (error + dict) \<times> state" where
  "dump_results results s =
     (if writable (world s) output_file
      then (Inr results,
            emit [Open output_file ''w'', Write output_file (JObject results), Close output_file] s)
      else (Inl OSError, s))"

text \<open>\<^verbatim>\<open>dataPath = sys.argv[1] if len(sys.argv) > 1 else '../../../Data'\<close>\<close>

definition data_path :: "string list \<Rightarrow> string" where
  "data_path argv = (if length argv > 1 then argv ! 1 else ''../../../Data'')"

text \<open>
  The script, from its command line \<open>argv\<close> (\<^verbatim>\<open>sys.argv\<close>) and the world it starts in.  Its
  result is the final value of \<^verbatim>\<open>results\<close>, or the exception that ended it.
\<close>

definition main :: "engine \<Rightarrow> string list \<Rightarrow> state \<Rightarrow> (error + dict) \<times> state" where
  "main eng argv s =
     (let dataPath = data_path argv
      in case benchmark_directories eng dataPath base_directories [] s of
           (Inl e, s') \<Rightarrow> (Inl e, s')
         | (Inr results, s') \<Rightarrow> dump_results results s')"

definition start :: "world \<Rightarrow> state" where
  "start w = \<lparr>world = w, trace = []\<rparr>"

subsection \<open>Notions the properties are stated with\<close>

text \<open>
  The scraper: the loop over the lines of one log, from two empty lists, which is how the
  only repetition starts.
\<close>

definition scrape :: "string \<Rightarrow> int list \<times> int list" where
  "scrape t = scrape_lines (file_lines t) ([], [])"

text \<open>The entries of a listing that the loop does not skip, in the order it meets them.\<close>

definition candidates :: "string list \<Rightarrow> string list" where
  "candidates names = filter (\<lambda>algorithmFile. endswith algorithmFile [''py'', ''cs'']) (sort names)"

text \<open>What a successful pass over one algorithm file adds to the trace, and over a list of them.\<close>

definition algorithm_events :: "string \<Rightarrow> string \<Rightarrow> string \<Rightarrow> string \<Rightarrow> event list" where
  "algorithm_events dataPath baseDirectory language algorithmFile =
     [Run (engine_command dataPath language (stem algorithmFile)
            (algorithm_location baseDirectory language algorithmFile)),
      Open (algorithm_logs (stem algorithmFile)) ''r'']"

definition schedule :: "string \<Rightarrow> string \<Rightarrow> string \<Rightarrow> string list \<Rightarrow> event list" where
  "schedule dataPath baseDirectory language algorithmFiles =
     concat (map (algorithm_events dataPath baseDirectory language) algorithmFiles)"

fun is_write :: "event \<Rightarrow> bool" where
  "is_write (Write path doc) = True"
| "is_write ev = False"

fun is_run :: "event \<Rightarrow> bool" where
  "is_run (Run cmd) = True"
| "is_run ev = False"

fun is_close :: "event \<Rightarrow> bool" where
  "is_close (Close path) = True"
| "is_close ev = False"

text \<open>The keys of a dict that got its keys in the order \<open>ks\<close>: each at its first place.\<close>

definition insertion_order :: "string list \<Rightarrow> string list" where
  "insertion_order ks = rev (remdups (rev ks))"

text \<open>
  The shape of the output document:
  \<^verbatim>\<open>{language: {algorithm: {"average-dps": number, "samples": [number, ...], "average-length": number}}}\<close>
\<close>

fun is_number :: "json \<Rightarrow> bool" where
  "is_number (JNumber x) = True"
| "is_number j = False"

fun is_metric :: "json \<Rightarrow> bool" where
  "is_metric (JObject [(k1, averageDps), (k2, JArray samples), (k3, averageLength)]) =
     (k1 = ''average-dps'' \<and> is_number averageDps \<and>
      k2 = ''samples'' \<and> list_all is_number samples \<and>
      k3 = ''average-length'' \<and> is_number averageLength)"
| "is_metric j = False"

fun is_object_of :: "(json \<Rightarrow> bool) \<Rightarrow> json \<Rightarrow> bool" where
  "is_object_of P (JObject d) = list_all (\<lambda>kv. P (snd kv)) d"
| "is_object_of P j = False"

definition is_results_document :: "json \<Rightarrow> bool" where
  "is_results_document = is_object_of (is_object_of is_metric)"

text \<open>
  The places of a line, from left to right: the text before a position and the text from it
  on.
\<close>

definition places :: "string \<Rightarrow> (string \<times> string) list" where
  "places line = map (\<lambda>i. (take i line, drop i line)) [0..<length line]"

text \<open>
  A run of digits immediately followed by the literal: the place is where a run of digits
  starts (no digit before it), and behind the run stands \<^verbatim>\<open>k data points per second\<close>.
\<close>

definition dps_occurrence :: "string \<times> string \<Rightarrow> bool" where
  "dps_occurrence p =
     (case p of (before, after) \<Rightarrow>
        after \<noteq> [] \<and> is_digit (hd after) \<and> (before = [] \<or> \<not> is_digit (last before)) \<and>
        prefix dps_suffix (dropWhile is_digit after))"

definition dps_occurrences :: "string \<Rightarrow> int list" where
  "dps_occurrences line =
     map (\<lambda>(before, after). int_of_digits (takeWhile is_digit after))
       (filter dps_occurrence (places line))"

text \<open>
  The literal \<^verbatim>\<open> completed in \<close> immediately followed by a run of digits: the literal stands at
  the place, and a digit behind it.
\<close>

definition length_occurrence :: "string \<times> string \<Rightarrow> bool" where
  "length_occurrence p =
     (case p of (before, after) \<Rightarrow>
        prefix length_prefix after \<and>
        (let t = drop (length length_prefix) after in t \<noteq> [] \<and> is_digit (hd t)))"

definition length_occurrences :: "string \<Rightarrow> int list" where
  "length_occurrences line =
     map (\<lambda>(before, after). int_of_digits (takeWhile is_digit (drop (length length_prefix) after)))
       (filter length_occurrence (places line))"

text \<open>The places of a text that stands behind \<open>before\<close>, by recursion, for the proofs.\<close>

fun cuts :: "string \<Rightarrow> string \<Rightarrow> (string \<times> string) list" where
  "cuts before [] = []"
| "cuts before (c # after) = (before, c # after) # cuts (before @ [c]) after"

subsection \<open>An engine and worlds to run the script in\<close>

text \<open>
  An engine after whose run the files are \<open>fs\<close>, the log files of some algorithms by name,
  and a world with the two benchmark directories, no file yet, and every path writable.
\<close>

definition example_engine :: "(string \<Rightarrow> contents option) \<Rightarrow> engine" where
  "example_engine fs cmd w = Some (w\<lparr>files := fs\<rparr>)"

definition logs_for :: "(string \<times> contents) list \<Rightarrow> string \<Rightarrow> contents option" where
  "logs_for named =
     map_of (map (\<lambda>(name, c). (''./Launcher/bin/Release/'' @ name @ ''-log.txt'', c)) named)"

definition example_world :: "string list \<Rightarrow> string list \<Rightarrow> world" where
  "example_world csharp python =
     \<lparr>dirs = [''Algorithm.CSharp/Benchmarks'' \<mapsto> csharp, ''Algorithm.Python/Benchmarks'' \<mapsto> python],
      files = (\<lambda>path. None),
      writable = (\<lambda>path. True)\<rparr>"

definition good_log :: string where
  "good_log = ''10k data points per second'' @ [CHR 0x0A] @ ''Backtest completed in 5 seconds'' @ [CHR 0x0A]"

section \<open>The scraper finds the occurrences\<close>

lemma cuts_eq: "cuts pre s = map (\<lambda>i. (pre @ take i s, drop i s)) [0..<length s]"
proof (induction s arbitrary: pre)
  case Nil
  then show ?case by simp
next
  case (Cons c s)
  have "[0..<length (c # s)] = 0 # map Suc [0..<length s]"
    by (simp add: upt_conv_Cons map_Suc_upt del: upt_Suc)
  then show ?case
    by (simp add: Cons.IH comp_def del: upt_Suc)
qed

lemma places_cuts: "places line = cuts [] line"
  by (simp add: places_def cuts_eq)

lemma cuts_append:
  "cuts pre (a @ b) = map (\<lambda>(x, y). (x, y @ b)) (cuts pre a) @ cuts (pre @ a) b"
  by (induction a arbitrary: pre) auto

lemma in_cuts: "(x, y) \<in> set (cuts pre a) \<Longrightarrow> \<exists>i < length a. x = pre @ take i a \<and> y = drop i a"
  by (auto simp: cuts_eq)

lemma dps_suffix_no_digit: "\<not> prefix dps_suffix (d # t)" if "is_digit d"
  using that by (auto simp: dps_suffix_def is_digit_def)

lemma backtrack_dps_None:
  "k < length (takeWhile is_digit s) \<Longrightarrow> backtrack_dps k s = None"
proof (induction k)
  case 0
  then show ?case by simp
next
  case (Suc k)
  let ?n = "length (takeWhile is_digit s)"
  have len: "Suc k < length s"
    using Suc.prems length_takeWhile_le [of is_digit s] by simp
  have "is_digit (s ! Suc k)"
    using Suc.prems by (metis nth_mem set_takeWhileD takeWhile_nth)
  moreover have "drop (Suc k) s = s ! Suc k # drop (Suc (Suc k)) s"
    using len by (simp add: Cons_nth_drop_Suc)
  ultimately have "\<not> prefix dps_suffix (drop (Suc k) s)"
    using dps_suffix_no_digit by simp
  with Suc show ?case by simp
qed

lemma match_dps_eq:
  "match_dps s =
     (if takeWhile is_digit s \<noteq> [] \<and> prefix dps_suffix (dropWhile is_digit s)
      then Some (takeWhile is_digit s, drop (length dps_suffix) (dropWhile is_digit s))
      else None)"
proof (cases "length (takeWhile is_digit s)")
  case 0
  then show ?thesis by (simp add: match_dps_def)
next
  case (Suc m)
  have t: "take (Suc m) s = takeWhile is_digit s" and d: "drop (Suc m) s = dropWhile is_digit s"
    using Suc takeWhile_eq_take [of is_digit s] dropWhile_eq_drop [of is_digit s] by simp_all
  have "backtrack_dps m s = None"
    using Suc by (simp add: backtrack_dps_None)
  moreover have "drop (Suc (m + length dps_suffix)) s = drop (length dps_suffix) (dropWhile is_digit s)"
    using d by (metis add.commute add_Suc_right drop_drop)
  moreover have "takeWhile is_digit s \<noteq> []"
    using Suc by auto
  ultimately show ?thesis
    using Suc t d by (simp add: match_dps_def)
qed


lemma dps_occurrence_iff:
  "dps_occurrence (pre, s) \<longleftrightarrow> (pre = [] \<or> \<not> is_digit (last pre)) \<and> match_dps s \<noteq> None"
  by (auto simp: dps_occurrence_def match_dps_eq takeWhile_eq_Nil_iff)

lemma dps_suffix_chars: "c \<in> set dps_suffix \<Longrightarrow> \<not> is_digit c"
  by (auto simp: dps_suffix_def is_digit_def)

lemma no_dps_occurrence_in_run:
  assumes "\<forall>c \<in> set g. is_digit c" and "(x, y) \<in> set (cuts (pre @ [c]) g')" and "g = c # g'"
  shows "\<not> dps_occurrence (x, y @ t)"
proof -
  obtain i where "i < length g'" and x: "x = (pre @ [c]) @ take i g'"
    using in_cuts [OF assms(2)] by blast
  have "last x \<in> set g"
  proof (cases "take i g' = []")
    case True
    then show ?thesis by (simp add: x assms(3))
  next
    case False
    then have "last (take i g') \<in> set g'"
      using last_in_set in_set_takeD by metis
    then show ?thesis
      using False by (simp add: x assms(3))
  qed
  then have "is_digit (last x)" "x \<noteq> []"
    using assms(1) x by auto
  then show ?thesis
    by (simp add: dps_occurrence_def)
qed

lemma no_dps_occurrence_in_suffix:
  assumes "(x, y) \<in> set (cuts pre' dps_suffix)"
  shows "\<not> dps_occurrence (x, y @ t)"
proof -
  obtain i where i: "i < length dps_suffix" and y: "y = drop i dps_suffix"
    using in_cuts [OF assms] by blast
  then have "y \<noteq> []" and "hd y \<in> set dps_suffix"
    by (auto simp: hd_drop_conv_nth)
  then have "\<not> is_digit (hd (y @ t))"
    using dps_suffix_chars by simp
  then show ?thesis
    using \<open>y \<noteq> []\<close> by (simp add: dps_occurrence_def)
qed

lemma findall_dps_cuts:
  "pre = [] \<or> \<not> is_digit (last pre) \<or> match_dps s = None \<Longrightarrow>
   map int_of_digits (findall_dps s) =
     map (\<lambda>(before, after). int_of_digits (takeWhile is_digit after))
       (filter dps_occurrence (cuts pre s))"
proof (induction s arbitrary: pre rule: length_induct)
  case (1 s)
  let ?val = "\<lambda>(before, after). int_of_digits (takeWhile is_digit after)"
  show ?case
  proof (cases "match_dps s")
    case None
    show ?thesis
    proof (cases s)
      case Nil
      then show ?thesis
        using None by (simp add: findall_dps.simps [of "[]"])
    next
      case (Cons c cs)
      have "match_dps cs = None" if "is_digit c"
        using that None unfolding Cons match_dps_eq [of "c # cs"] match_dps_eq [of cs]
        by (simp split: if_splits)
      then have "map int_of_digits (findall_dps cs) =
          map ?val (filter dps_occurrence (cuts (pre @ [c]) cs))"
        using "1.IH" [rule_format, of cs "pre @ [c]"] Cons by auto
      moreover have "\<not> dps_occurrence (pre, c # cs)"
        using None Cons by (simp add: dps_occurrence_iff)
      moreover have "findall_dps (c # cs) = findall_dps cs"
        using None Cons by (simp add: findall_dps.simps [of "c # cs"])
      ultimately show ?thesis
        using Cons by simp
    qed
  next
    case (Some m)
    obtain g rest where m: "m = (g, rest)"
      by (cases m)
    have g: "g = takeWhile is_digit s" "g \<noteq> []"
      and lit: "prefix dps_suffix (dropWhile is_digit s)"
      and rest: "rest = drop (length dps_suffix) (dropWhile is_digit s)"
      using Some unfolding m match_dps_eq by (auto split: if_splits)
    have "dropWhile is_digit s = dps_suffix @ rest"
      using lit rest by (auto simp: prefix_def)
    then have s: "s = g @ dps_suffix @ rest"
      using g(1) takeWhile_dropWhile_id [of is_digit s] by simp
    obtain c g' where g': "g = c # g'"
      using g(2) by (cases g) auto
    have digits: "\<forall>c \<in> set g. is_digit c"
      unfolding g(1) by (auto dest: set_takeWhileD)
    have start: "pre = [] \<or> \<not> is_digit (last pre)"
      using "1.prems" Some by auto
    have "\<not> is_digit (last (pre @ g @ dps_suffix))"
      by (simp add: dps_suffix_def is_digit_def)
    moreover have "length rest < length s"
      by (simp add: s g')
    ultimately have IH: "map int_of_digits (findall_dps rest) =
        map ?val (filter dps_occurrence (cuts (pre @ g @ dps_suffix) rest))"
      using "1.IH" by blast
    have first: "dps_occurrence (pre, s)"
      using start Some by (simp add: dps_occurrence_iff)
    have in_run: "filter dps_occurrence
        (map (\<lambda>(x, y). (x, y @ dps_suffix @ rest)) (cuts (pre @ [c]) g')) = []"
      using no_dps_occurrence_in_run [OF digits _ g']
      by (auto simp: filter_empty_conv)
    have in_suffix: "filter dps_occurrence
        (map (\<lambda>(x, y). (x, y @ rest)) (cuts (pre @ g) dps_suffix)) = []"
      using no_dps_occurrence_in_suffix by (auto simp: filter_empty_conv)
    have "cuts pre s = (pre, s) # map (\<lambda>(x, y). (x, y @ dps_suffix @ rest)) (cuts (pre @ [c]) g')
        @ map (\<lambda>(x, y). (x, y @ rest)) (cuts (pre @ g) dps_suffix)
        @ cuts (pre @ g @ dps_suffix) rest"
      unfolding s cuts_append by (simp add: g')
    then have "filter dps_occurrence (cuts pre s) =
        (pre, s) # filter dps_occurrence (cuts (pre @ g @ dps_suffix) rest)"
      using first in_run in_suffix by simp
    moreover have "findall_dps s = g # findall_dps rest"
      using Some m by (simp add: findall_dps.simps [of s])
    ultimately show ?thesis
      using IH g(1) by simp
  qed
qed

lemma findall_dps_occurrences: "map int_of_digits (findall_dps line) = dps_occurrences line"
  by (simp add: dps_occurrences_def places_cuts findall_dps_cuts)


lemma length_occurrence_iff: "length_occurrence (pre, s) \<longleftrightarrow> match_length s \<noteq> None"
  by (auto simp: length_occurrence_def match_length_def Let_def takeWhile_eq_Nil_iff)

lemma length_prefix_no_overlap:
  assumes "g \<noteq> []" and "\<forall>c \<in> set g. is_digit c" and "j < length (tl length_prefix @ g)"
  shows "\<not> prefix length_prefix (drop j (tl length_prefix @ g) @ rest)"
proof (cases "j < 13")
  case True
  obtain d g' where g: "g = d # g'"
    using assms(1) by (cases g) auto
  have "d \<noteq> CHR ''c''"
    using assms(2) by (auto simp: g is_digit_def)
  moreover have "j \<in> {0, 1, 2, 3, 4, 5, 6, 7, 8, 9, 10, 11, 12}"
    using True by simp arith
  ultimately show ?thesis
    by (auto simp: length_prefix_def g)
next
  case False
  have len: "length length_prefix = 14"
    by (simp add: length_prefix_def)
  have "drop j (tl length_prefix @ g) = drop (j - 13) g" and "j - 13 < length g"
    using False assms(3) by (simp_all add: len)
  then obtain d t where dt: "drop j (tl length_prefix @ g) = d # t" and "d \<in> set g"
    by (metis Cons_nth_drop_Suc nth_mem)
  then have "is_digit d"
    using assms(2) by simp
  then have "d \<noteq> CHR '' ''"
    by (auto simp: is_digit_def)
  then show ?thesis
    unfolding dt by (simp add: length_prefix_def)
qed

lemma findall_length_cuts:
  "map int_of_digits (findall_length s) =
     map (\<lambda>(before, after). int_of_digits (takeWhile is_digit (drop (length length_prefix) after)))
       (filter length_occurrence (cuts pre s))"
proof (induction s arbitrary: pre rule: length_induct)
  case (1 s)
  let ?val = "\<lambda>(before, after).
    int_of_digits (takeWhile is_digit (drop (length length_prefix) after))"
  show ?case
  proof (cases "match_length s")
    case None
    show ?thesis
    proof (cases s)
      case Nil
      then show ?thesis
        using None by (simp add: findall_length.simps [of "[]"])
    next
      case (Cons c cs)
      have "map int_of_digits (findall_length cs) =
          map ?val (filter length_occurrence (cuts (pre @ [c]) cs))"
        using "1.IH" Cons by simp
      moreover have "\<not> length_occurrence (pre, c # cs)"
        using None Cons by (simp add: length_occurrence_iff)
      moreover have "findall_length (c # cs) = findall_length cs"
        using None Cons by (simp add: findall_length.simps [of "c # cs"])
      ultimately show ?thesis
        using Cons by simp
    qed
  next
    case (Some m)
    obtain g rest where m: "m = (g, rest)"
      by (cases m)
    let ?t = "drop (length length_prefix) s"
    have lit: "prefix length_prefix s"
      and g: "g = takeWhile is_digit ?t" "g \<noteq> []"
      and rest: "rest = dropWhile is_digit ?t"
      using Some unfolding m match_length_def by (auto simp: Let_def split: if_splits)
    have "s = length_prefix @ ?t"
      using lit by (auto simp: prefix_def)
    then have s: "s = length_prefix @ g @ rest"
      using g(1) rest takeWhile_dropWhile_id [of is_digit ?t] by simp
    have digits: "\<forall>c \<in> set g. is_digit c"
      unfolding g(1) by (auto dest: set_takeWhileD)
    have "length rest < length s"
      using g(2) by (simp add: s)
    then have IH: "map int_of_digits (findall_length rest) =
        map ?val (filter length_occurrence (cuts (pre @ length_prefix @ g) rest))"
      using "1.IH" by blast
    have first: "length_occurrence (pre, s)"
      using Some by (simp add: length_occurrence_iff)
    have inside: "filter length_occurrence
        (map (\<lambda>(x, y). (x, y @ rest)) (cuts (pre @ [hd length_prefix]) (tl length_prefix @ g))) = []"
    proof -
      have "\<not> length_occurrence (x, y @ rest)"
        if xy: "(x, y) \<in> set (cuts (pre @ [hd length_prefix]) (tl length_prefix @ g))" for x y
      proof -
        obtain j where "j < length (tl length_prefix @ g)" "y = drop j (tl length_prefix @ g)"
          using in_cuts [OF xy] by blast
        then show ?thesis
          using length_prefix_no_overlap [OF g(2) digits] by (simp add: length_occurrence_def)
      qed
      then show ?thesis
        by (auto simp: filter_empty_conv)
    qed
    have "length_prefix @ g = hd length_prefix # tl length_prefix @ g"
      by (simp add: length_prefix_def)
    then have "cuts pre (length_prefix @ g) =
        (pre, length_prefix @ g) # cuts (pre @ [hd length_prefix]) (tl length_prefix @ g)"
      by (metis cuts.simps(2))
    then have "cuts pre s = (pre, s)
        # map (\<lambda>(x, y). (x, y @ rest)) (cuts (pre @ [hd length_prefix]) (tl length_prefix @ g))
        @ cuts (pre @ length_prefix @ g) rest"
      using cuts_append [of pre "length_prefix @ g" rest] by (simp add: s)
    then have "filter length_occurrence (cuts pre s) =
        (pre, s) # filter length_occurrence (cuts (pre @ length_prefix @ g) rest)"
      using first inside by simp
    moreover have "findall_length s = g # findall_length rest"
      using Some m by (simp add: findall_length.simps [of s])
    ultimately show ?thesis
      using IH g(1) by simp
  qed
qed

lemma findall_length_occurrences:
  "map int_of_digits (findall_length line) = length_occurrences line"
  by (simp add: length_occurrences_def places_cuts findall_length_cuts)

lemma scrape_lines_concat:
  "scrape_lines ls (a, b) =
     (a @ concat (map (\<lambda>l. map int_of_digits (findall_dps l)) ls),
      b @ concat (map (\<lambda>l. map int_of_digits (findall_length l)) ls))"
  by (induction ls arbitrary: a b) auto

lemma scrape_occurrences:
  "scrape t =
     (concat (map dps_occurrences (file_lines t)), concat (map length_occurrences (file_lines t)))"
  by (simp add: scrape_def scrape_lines_concat findall_dps_occurrences findall_length_occurrences)

section \<open>The harness, step by step\<close>

lemma repetition_eq:
  "repetition eng dataPath language name location acc s =
     (let cmd = engine_command dataPath language name location
      in case eng cmd (world s) of
           None \<Rightarrow> (Inl OSError, s)
         | Some w \<Rightarrow>
             (case files w (algorithm_logs name) of
                None \<Rightarrow> (Inl OSError, \<lparr>world = w, trace = trace s @ [Run cmd]\<rparr>)
              | Some c \<Rightarrow>
                  (case c of Broken e \<Rightarrow> Inl e | Text t \<Rightarrow> Inr (scrape_lines (file_lines t) acc),
                   \<lparr>world = w, trace = trace s @ [Run cmd, Open (algorithm_logs name) ''r'']\<rparr>)))"
  by (cases s)
    (simp add: repetition_def subprocess_run_def open_read_def emit_def Let_def
      split: option.split contents.split)

lemma single_repetition:
  "repetitions eng dataPath language name location [1..<2] acc s =
     repetition eng dataPath language name location acc s"
proof -
  have "[1..<2] = [1::nat]"
    by (simp add: upt_rec)
  then show ?thesis
    by (simp split: prod.split sum.split)
qed

lemma benchmark_algorithm_eq:
  "benchmark_algorithm eng dataPath baseDirectory language algorithmFile resultsPerLanguage s =
     (let name = stem algorithmFile;
          cmd = engine_command dataPath language name
                  (algorithm_location baseDirectory language algorithmFile)
      in case eng cmd (world s) of
           None \<Rightarrow> (Inl OSError, s)
         | Some w \<Rightarrow>
             (case files w (algorithm_logs name) of
                None \<Rightarrow> (Inl OSError, \<lparr>world = w, trace = trace s @ [Run cmd]\<rparr>)
              | Some (Broken e) \<Rightarrow>
                  (Inl e, \<lparr>world = w, trace = trace s @ [Run cmd, Open (algorithm_logs name) ''r'']\<rparr>)
              | Some (Text t) \<Rightarrow>
                  (case mean (fst (scrape t)) of
                     Inl e \<Rightarrow> Inl e
                   | Inr averageDps \<Rightarrow>
                       (case mean (snd (scrape t)) of
                          Inl e \<Rightarrow> Inl e
                        | Inr averageLength \<Rightarrow>
                            Inr (dict_set resultsPerLanguage name
                                   (metric averageDps (fst (scrape t)) averageLength))),
                   \<lparr>world = w, trace = trace s @ [Run cmd, Open (algorithm_logs name) ''r'']\<rparr>)))"
  unfolding benchmark_algorithm_def single_repetition repetition_eq scrape_def Let_def
  by (simp split: option.split contents.split sum.split prod.split)

lemma algorithm_trace:
  assumes "benchmark_algorithm eng dataPath baseDirectory language algorithmFile rpl s = (r, s')"
  shows "\<exists>evs. trace s' = trace s @ evs \<and>
           prefix evs (algorithm_events dataPath baseDirectory language algorithmFile) \<and>
           (\<not> isl r \<longrightarrow> evs = algorithm_events dataPath baseDirectory language algorithmFile)"
  using assms unfolding benchmark_algorithm_eq algorithm_events_def Let_def
  by (auto split: option.splits contents.splits sum.splits)

lemma algorithm_result:
  assumes "benchmark_algorithm eng dataPath baseDirectory language algorithmFile rpl s = (Inr rpl', s')"
  shows "\<exists>averageDps samples averageLength.
           rpl' = dict_set rpl (stem algorithmFile) (metric averageDps samples averageLength)"
  using assms unfolding benchmark_algorithm_eq Let_def
  by (auto split: option.splits contents.splits sum.splits)


lemma benchmark_files_candidates:
  "benchmark_files eng dataPath baseDirectory language entries rpl s =
   benchmark_files eng dataPath baseDirectory language
     (filter (\<lambda>algorithmFile. endswith algorithmFile [''py'', ''cs'']) entries) rpl s"
  by (induction entries arbitrary: rpl s) (simp_all split: prod.split sum.split)

lemma benchmark_files_append:
  "benchmark_files eng dataPath baseDirectory language (xs @ ys) rpl s =
     (case benchmark_files eng dataPath baseDirectory language xs rpl s of
        (Inl e, s') \<Rightarrow> (Inl e, s')
      | (Inr rpl', s') \<Rightarrow> benchmark_files eng dataPath baseDirectory language ys rpl' s')"
  by (induction xs arbitrary: rpl s) (simp_all split: prod.split sum.split)

lemma files_trace:
  assumes "benchmark_files eng dataPath baseDirectory language entries rpl s = (r, s')"
  shows "\<exists>evs. trace s' = trace s @ evs \<and>
           prefix evs (schedule dataPath baseDirectory language
                        (filter (\<lambda>f. endswith f [''py'', ''cs'']) entries)) \<and>
           (\<not> isl r \<longrightarrow> evs = schedule dataPath baseDirectory language
                        (filter (\<lambda>f. endswith f [''py'', ''cs'']) entries))"
  using assms
proof (induction entries arbitrary: rpl s)
  case Nil
  then show ?case by (simp add: schedule_def)
next
  case (Cons f entries)
  let ?ok = "\<lambda>f. endswith f [''py'', ''cs'']"
  show ?case
  proof (cases "?ok f")
    case False
    then show ?thesis
      using Cons by simp
  next
    case True
    obtain r1 s1 where step: "benchmark_algorithm eng dataPath baseDirectory language f rpl s = (r1, s1)"
      by (cases "benchmark_algorithm eng dataPath baseDirectory language f rpl s")
    from algorithm_trace [OF step] obtain evs1 where evs1:
      "trace s1 = trace s @ evs1"
      "prefix evs1 (algorithm_events dataPath baseDirectory language f)"
      "\<not> isl r1 \<longrightarrow> evs1 = algorithm_events dataPath baseDirectory language f"
      by blast
    have sched: "schedule dataPath baseDirectory language (filter ?ok (f # entries)) =
        algorithm_events dataPath baseDirectory language f @
        schedule dataPath baseDirectory language (filter ?ok entries)"
      using True by (simp add: schedule_def)
    show ?thesis
    proof (cases r1)
      case (Inl e)
      then have "r = Inl e" "s' = s1"
        using Cons.prems True step by simp_all
      then show ?thesis
        using evs1 sched by (auto intro: prefix_prefix)
    next
      case (Inr rpl1)
      then have "benchmark_files eng dataPath baseDirectory language entries rpl1 s1 = (r, s')"
        using Cons.prems True step by simp
      from Cons.IH [OF this] obtain evs2 where evs2:
        "trace s' = trace s1 @ evs2"
        "prefix evs2 (schedule dataPath baseDirectory language (filter ?ok entries))"
        "\<not> isl r \<longrightarrow> evs2 = schedule dataPath baseDirectory language (filter ?ok entries)"
        by blast
      have "evs1 = algorithm_events dataPath baseDirectory language f"
        using evs1(3) Inr by simp
      then show ?thesis
        using evs1(1) evs2 sched by auto
    qed
  qed
qed

lemma dict_set_keys:
  "map fst (dict_set d k v) = (if k \<in> set (map fst d) then map fst d else map fst d @ [k])"
  by (induction d) (auto simp: rev_image_eqI)

lemma dict_set_values:
  "list_all (\<lambda>kv. P (snd kv)) d \<Longrightarrow> P v \<Longrightarrow> list_all (\<lambda>kv. P (snd kv)) (dict_set d k v)"
  by (induction d) auto


lemma insertion_order_distinct: "distinct ks \<Longrightarrow> insertion_order ks = ks"
  by (simp add: insertion_order_def distinct_remdups_id)

lemma remdups_drop_earlier: "k \<in> set ys \<Longrightarrow> remdups (xs @ k # ys) = remdups (xs @ ys)"
  by (induction xs) auto

lemma insertion_order_step:
  "distinct ks \<Longrightarrow>
   insertion_order (ks @ k # rest) = insertion_order ((if k \<in> set ks then ks else ks @ [k]) @ rest)"
  by (simp add: insertion_order_def remdups_drop_earlier)

lemma is_metric_metric: "is_metric (metric averageDps samples averageLength)"
  by (simp add: metric_def list_all_iff)

lemma files_result:
  assumes "benchmark_files eng dataPath baseDirectory language entries rpl s = (Inr r, s')"
    and "distinct (map fst rpl)"
  shows "map fst r = insertion_order
           (map fst rpl @ map stem (filter (\<lambda>f. endswith f [''py'', ''cs'']) entries)) \<and>
         (list_all (\<lambda>kv. is_metric (snd kv)) rpl \<longrightarrow> list_all (\<lambda>kv. is_metric (snd kv)) r)"
  using assms
proof (induction entries arbitrary: rpl s)
  case Nil
  then show ?case by (simp add: insertion_order_distinct)
next
  case (Cons f entries)
  let ?ok = "\<lambda>f. endswith f [''py'', ''cs'']"
  show ?case
  proof (cases "?ok f")
    case False
    then show ?thesis
      using Cons by simp
  next
    case True
    obtain r1 s1 where step: "benchmark_algorithm eng dataPath baseDirectory language f rpl s = (r1, s1)"
      by (cases "benchmark_algorithm eng dataPath baseDirectory language f rpl s")
    then obtain rpl1 where r1: "r1 = Inr rpl1"
      and rest: "benchmark_files eng dataPath baseDirectory language entries rpl1 s1 = (Inr r, s')"
      using Cons.prems(1) True by (cases r1) auto
    obtain a S l where rpl1: "rpl1 = dict_set rpl (stem f) (metric a S l)"
      using algorithm_result step r1 by blast
    have keys: "map fst rpl1 = (if stem f \<in> set (map fst rpl) then map fst rpl else map fst rpl @ [stem f])"
      by (simp add: rpl1 dict_set_keys)
    then have d: "distinct (map fst rpl1)"
      using Cons.prems(2) by auto
    have "insertion_order (map fst rpl @ stem f # map stem (filter ?ok entries)) =
        insertion_order (map fst rpl1 @ map stem (filter ?ok entries))"
      using insertion_order_step [OF Cons.prems(2)] keys by simp
    moreover have "list_all (\<lambda>kv. is_metric (snd kv)) rpl1" if "list_all (\<lambda>kv. is_metric (snd kv)) rpl"
      unfolding rpl1 using that is_metric_metric by (rule dict_set_values)
    ultimately show ?thesis
      using Cons.IH [OF rest d] True by simp
  qed
qed


lemma language_of_base_directories:
  "language_of ''Algorithm.CSharp/Benchmarks'' = Inr ''CSharp''"
  "language_of ''Algorithm.Python/Benchmarks'' = Inr ''Python''"
  by (simp_all add: language_of_def slice_def)

lemma benchmark_directory_eq:
  "benchmark_directory eng dataPath baseDirectory results s =
     (case language_of baseDirectory of
        Inl e \<Rightarrow> (Inl e, s)
      | Inr language \<Rightarrow>
          (case dirs (world s) baseDirectory of
             None \<Rightarrow> (Inl OSError, s)
           | Some names \<Rightarrow>
               (case benchmark_files eng dataPath baseDirectory language (candidates names) []
                       (emit [Listdir baseDirectory] s) of
                  (Inl e, s2) \<Rightarrow> (Inl e, s2)
                | (Inr resultsPerLanguage, s2) \<Rightarrow>
                    (Inr (dict_set results language (JObject resultsPerLanguage)), s2))))"
  unfolding benchmark_directory_def os_listdir_def candidates_def
  using benchmark_files_candidates [of eng dataPath baseDirectory]
  by (simp split: sum.split option.split)

lemma directory_trace:
  assumes "benchmark_directory eng dataPath baseDirectory results s = (r, s')"
    and "language_of baseDirectory = Inr language"
  shows "\<exists>evs. trace s' = trace s @ evs \<and>
           (case dirs (world s) baseDirectory of
              None \<Rightarrow> evs = [] \<and> isl r
            | Some names \<Rightarrow>
                prefix evs (Listdir baseDirectory #
                  schedule dataPath baseDirectory language (candidates names)) \<and>
                (\<not> isl r \<longrightarrow> evs = Listdir baseDirectory #
                  schedule dataPath baseDirectory language (candidates names)))"
proof (cases "dirs (world s) baseDirectory")
  case None
  then show ?thesis
    using assms by (auto simp: benchmark_directory_eq)
next
  case (Some names)
  obtain r2 s2 where files: "benchmark_files eng dataPath baseDirectory language (candidates names) []
      (emit [Listdir baseDirectory] s) = (r2, s2)"
    by (cases "benchmark_files eng dataPath baseDirectory language (candidates names) []
      (emit [Listdir baseDirectory] s)")
  have cand: "filter (\<lambda>f. endswith f [''py'', ''cs'']) (candidates names) = candidates names"
    by (simp add: candidates_def)
  from files_trace [OF files] obtain evs where evs:
    "trace s2 = trace s @ Listdir baseDirectory # evs"
    "prefix evs (schedule dataPath baseDirectory language (candidates names))"
    "\<not> isl r2 \<longrightarrow> evs = schedule dataPath baseDirectory language (candidates names)"
    unfolding cand by (auto simp: emit_def)
  have "s' = s2" and "isl r = isl r2"
    using assms files Some by (auto simp: benchmark_directory_eq split: sum.splits)
  then show ?thesis
    using evs Some by simp
qed

lemma directory_result:
  assumes "benchmark_directory eng dataPath baseDirectory results s = (Inr r, s')"
  shows "\<exists>language names rpl.
           language_of baseDirectory = Inr language \<and>
           dirs (world s) baseDirectory = Some names \<and>
           r = dict_set results language (JObject rpl) \<and>
           map fst rpl = insertion_order (map stem (candidates names)) \<and>
           list_all (\<lambda>kv. is_metric (snd kv)) rpl"
proof -
  obtain language names rpl where l: "language_of baseDirectory = Inr language"
    and n: "dirs (world s) baseDirectory = Some names"
    and files: "benchmark_files eng dataPath baseDirectory language (candidates names) []
      (emit [Listdir baseDirectory] s) = (Inr rpl, s')"
    and r: "r = dict_set results language (JObject rpl)"
    using assms unfolding benchmark_directory_eq
    by (auto split: sum.splits option.splits prod.splits)
  have cand: "filter (\<lambda>f. endswith f [''py'', ''cs'']) (candidates names) = candidates names"
    by (simp add: candidates_def)
  have "map fst rpl = insertion_order (map stem (candidates names))"
    and "list_all (\<lambda>kv. is_metric (snd kv)) rpl"
    using files_result [OF files] unfolding cand by simp_all
  then show ?thesis
    using l n r by blast
qed


lemma directory_events:
  assumes "benchmark_directory eng dataPath baseDirectory results s = (r, s')"
    and "language_of baseDirectory = Inr language"
  shows "\<exists>evs names. trace s' = trace s @ evs \<and>
           set evs \<subseteq> insert (Listdir baseDirectory)
                        (set (schedule dataPath baseDirectory language (candidates names)))"
proof -
  from directory_trace [OF assms] obtain evs where evs: "trace s' = trace s @ evs"
    "case dirs (world s) baseDirectory of
       None \<Rightarrow> evs = [] \<and> isl r
     | Some names \<Rightarrow>
         prefix evs (Listdir baseDirectory #
           schedule dataPath baseDirectory language (candidates names)) \<and>
         (\<not> isl r \<longrightarrow> evs = Listdir baseDirectory #
           schedule dataPath baseDirectory language (candidates names))"
    by blast
  show ?thesis
  proof (cases "dirs (world s) baseDirectory")
    case None
    then show ?thesis
      using evs by auto
  next
    case (Some names)
    then have "prefix evs (Listdir baseDirectory #
        schedule dataPath baseDirectory language (candidates names))"
      using evs(2) by simp
    then have "set evs \<subseteq> insert (Listdir baseDirectory)
        (set (schedule dataPath baseDirectory language (candidates names)))"
      using set_mono_prefix by fastforce
    then show ?thesis
      using evs(1) by blast
  qed
qed

lemma schedule_events:
  "ev \<in> set (schedule dataPath baseDirectory language fs) \<Longrightarrow>
   \<exists>f \<in> set fs. ev \<in> set (algorithm_events dataPath baseDirectory language f)"
  by (auto simp: schedule_def)

lemma schedule_no_write: "filter is_write (schedule dataPath baseDirectory language fs) = []"
  by (induction fs) (simp_all add: schedule_def algorithm_events_def)

lemma directories_events:
  assumes "benchmark_directories eng dataPath bases results s = (r, s')"
    and "\<forall>base \<in> set bases. \<not> isl (language_of base)"
  shows "\<exists>evs. trace s' = trace s @ evs \<and>
           (\<forall>ev \<in> set evs. \<exists>base \<in> set bases. \<exists>names.
              ev = Listdir base \<or>
              ev \<in> set (schedule dataPath base (projr (language_of base)) (candidates names)))"
  using assms
proof (induction bases arbitrary: results s)
  case Nil
  then show ?case by simp
next
  case (Cons base bases)
  obtain language where l: "language_of base = Inr language"
    using Cons.prems(2) by (cases "language_of base") auto
  obtain r1 s1 where step: "benchmark_directory eng dataPath base results s = (r1, s1)"
    by (cases "benchmark_directory eng dataPath base results s")
  from directory_events [OF step l] obtain evs1 names where evs1: "trace s1 = trace s @ evs1"
    "set evs1 \<subseteq> insert (Listdir base) (set (schedule dataPath base language (candidates names)))"
    by blast
  have ok1: "\<forall>ev \<in> set evs1. \<exists>b \<in> set (base # bases). \<exists>names.
      ev = Listdir b \<or> ev \<in> set (schedule dataPath b (projr (language_of b)) (candidates names))"
    using evs1(2) l by fastforce
  show ?case
  proof (cases r1)
    case (Inl e)
    then have "s' = s1"
      using Cons.prems(1) step by simp
    then show ?thesis
      using evs1(1) ok1 by blast
  next
    case (Inr results1)
    then have "benchmark_directories eng dataPath bases results1 s1 = (r, s')"
      using Cons.prems(1) step by simp
    from Cons.IH [OF this] Cons.prems(2) obtain evs2 where evs2: "trace s' = trace s1 @ evs2"
      "\<forall>ev \<in> set evs2. \<exists>b \<in> set bases. \<exists>names.
         ev = Listdir b \<or> ev \<in> set (schedule dataPath b (projr (language_of b)) (candidates names))"
      by auto
    have "trace s' = trace s @ (evs1 @ evs2)"
      using evs1(1) evs2(1) by simp
    moreover have "\<forall>ev \<in> set (evs1 @ evs2). \<exists>b \<in> set (base # bases). \<exists>names.
        ev = Listdir b \<or> ev \<in> set (schedule dataPath b (projr (language_of b)) (candidates names))"
      using ok1 evs2(2) by auto
    ultimately show ?thesis
      by blast
  qed
qed


lemma directory_success:
  assumes "benchmark_directory eng dataPath baseDirectory results s = (Inr r, s')"
    and "language_of baseDirectory = Inr language"
  shows "\<exists>names rpl.
           dirs (world s) baseDirectory = Some names \<and>
           r = dict_set results language (JObject rpl) \<and>
           map fst rpl = insertion_order (map stem (candidates names)) \<and>
           list_all (\<lambda>kv. is_metric (snd kv)) rpl \<and>
           trace s' = trace s @ Listdir baseDirectory #
             schedule dataPath baseDirectory language (candidates names)"
proof -
  from directory_result [OF assms(1)] obtain names rpl where
    "dirs (world s) baseDirectory = Some names"
    "r = dict_set results language (JObject rpl)"
    "map fst rpl = insertion_order (map stem (candidates names))"
    "list_all (\<lambda>kv. is_metric (snd kv)) rpl"
    using assms(2) by auto
  moreover from this(1) directory_trace [OF assms]
  have "trace s' = trace s @ Listdir baseDirectory #
      schedule dataPath baseDirectory language (candidates names)"
    by auto
  ultimately show ?thesis
    by blast
qed

lemma directories_success:
  assumes "benchmark_directories eng dataPath base_directories [] s = (Inr results, s2)"
  shows "\<exists>ns1 ns2 r1 r2.
           results = [(''CSharp'', JObject r1), (''Python'', JObject r2)] \<and>
           dirs (world s) ''Algorithm.CSharp/Benchmarks'' = Some ns1 \<and>
           dirs (world (snd (benchmark_directory eng dataPath ''Algorithm.CSharp/Benchmarks'' [] s)))
             ''Algorithm.Python/Benchmarks'' = Some ns2 \<and>
           map fst r1 = insertion_order (map stem (candidates ns1)) \<and>
           map fst r2 = insertion_order (map stem (candidates ns2)) \<and>
           list_all (\<lambda>kv. is_metric (snd kv)) r1 \<and>
           list_all (\<lambda>kv. is_metric (snd kv)) r2 \<and>
           trace s2 = trace s @
             Listdir ''Algorithm.CSharp/Benchmarks'' #
             schedule dataPath ''Algorithm.CSharp/Benchmarks'' ''CSharp'' (candidates ns1) @
             Listdir ''Algorithm.Python/Benchmarks'' #
             schedule dataPath ''Algorithm.Python/Benchmarks'' ''Python'' (candidates ns2)"
proof -
  let ?cs = "''Algorithm.CSharp/Benchmarks''" and ?py = "''Algorithm.Python/Benchmarks''"
  obtain res1 s1 where d1: "benchmark_directory eng dataPath ?cs [] s = (Inr res1, s1)"
    and d2: "benchmark_directory eng dataPath ?py res1 s1 = (Inr results, s2)"
    using assms unfolding base_directories_def
    by (auto split: prod.splits sum.splits)
  from directory_success [OF d1 language_of_base_directories(1)] obtain ns1 r1 where 1:
    "dirs (world s) ?cs = Some ns1"
    "res1 = dict_set [] ''CSharp'' (JObject r1)"
    "map fst r1 = insertion_order (map stem (candidates ns1))"
    "list_all (\<lambda>kv. is_metric (snd kv)) r1"
    "trace s1 = trace s @ Listdir ?cs # schedule dataPath ?cs ''CSharp'' (candidates ns1)"
    by blast
  from directory_success [OF d2 language_of_base_directories(2)] obtain ns2 r2 where 2:
    "dirs (world s1) ?py = Some ns2"
    "results = dict_set res1 ''Python'' (JObject r2)"
    "map fst r2 = insertion_order (map stem (candidates ns2))"
    "list_all (\<lambda>kv. is_metric (snd kv)) r2"
    "trace s2 = trace s1 @ Listdir ?py # schedule dataPath ?py ''Python'' (candidates ns2)"
    by blast
  have "results = [(''CSharp'', JObject r1), (''Python'', JObject r2)]"
    by (simp add: 1(2) 2(2))
  moreover have "snd (benchmark_directory eng dataPath ?cs [] s) = s1"
    by (simp add: d1)
  ultimately show ?thesis
    using 1 2 by (intro exI [of _ ns1] exI [of _ ns2] exI [of _ r1] exI [of _ r2]) simp
qed

lemma directories_no_write:
  assumes "benchmark_directories eng dataPath base_directories results s = (r, s')"
  shows "filter is_write (trace s') = filter is_write (trace s)"
proof -
  have "\<forall>base \<in> set base_directories. \<not> isl (language_of base)"
    by (simp add: base_directories_def language_of_base_directories)
  from directories_events [OF assms this] obtain evs where evs: "trace s' = trace s @ evs"
    "\<forall>ev \<in> set evs. \<exists>base \<in> set base_directories. \<exists>names.
       ev = Listdir base \<or>
       ev \<in> set (schedule dataPath base (projr (language_of base)) (candidates names))"
    by blast
  have "\<not> is_write ev" if ev: "ev \<in> set evs" for ev
  proof -
    obtain base names where c: "ev = Listdir base \<or>
        ev \<in> set (schedule dataPath base (projr (language_of base)) (candidates names))"
      using evs(2) ev by blast
    have "\<forall>x \<in> set (schedule dataPath base (projr (language_of base)) (candidates names)).
        \<not> is_write x"
      using schedule_no_write [of dataPath base "projr (language_of base)" "candidates names"]
      by (simp add: filter_empty_conv)
    then show ?thesis
      using c by auto
  qed
  then have "filter is_write evs = []"
    by (simp add: filter_empty_conv)
  then show ?thesis
    using evs(1) by simp
qed

lemma main_eq:
  "main eng argv s =
     (case benchmark_directories eng (data_path argv) base_directories [] s of
        (Inl e, s') \<Rightarrow> (Inl e, s')
      | (Inr results, s') \<Rightarrow>
          (if writable (world s') output_file
           then (Inr results,
                 s'\<lparr>trace := trace s' @
                   [Open output_file ''w'', Write output_file (JObject results), Close output_file]\<rparr>)
           else (Inl OSError, s')))"
  by (simp add: main_def dump_results_def emit_def Let_def split: prod.split sum.split)

lemma main_writes:
  "filter is_write (trace (snd (main eng argv s))) =
     filter is_write (trace s) @
     (case fst (main eng argv s) of
        Inl e \<Rightarrow> []
      | Inr results \<Rightarrow> [Write output_file (JObject results)])"
proof -
  obtain r s' where d: "benchmark_directories eng (data_path argv) base_directories [] s = (r, s')"
    by (cases "benchmark_directories eng (data_path argv) base_directories [] s")
  have "filter is_write (trace s') = filter is_write (trace s)"
    using d by (rule directories_no_write)
  then show ?thesis
    unfolding main_eq d by (cases r) simp_all
qed

lemma main_success:
  assumes "fst (main eng argv s) = Inr results"
  shows "\<exists>s2. benchmark_directories eng (data_path argv) base_directories [] s = (Inr results, s2) \<and>
           trace (snd (main eng argv s)) = trace s2 @
             [Open output_file ''w'', Write output_file (JObject results), Close output_file]"
  using assms unfolding main_eq
  by (auto split: prod.splits sum.splits if_splits)




lemma files_success_trace:
  assumes "fst (benchmark_files eng dataPath baseDirectory language entries rpl s) = Inr r"
  shows "trace (snd (benchmark_files eng dataPath baseDirectory language entries rpl s)) =
           trace s @ schedule dataPath baseDirectory language
             (filter (\<lambda>f. endswith f [''py'', ''cs'']) entries)"
proof -
  obtain s' where "benchmark_files eng dataPath baseDirectory language entries rpl s = (Inr r, s')"
    using assms by (cases "benchmark_files eng dataPath baseDirectory language entries rpl s") simp
  then show ?thesis
    using files_trace [of eng dataPath baseDirectory language entries rpl s "Inr r" s'] by auto
qed

lemma files_abort:
  assumes "fst (benchmark_files eng dataPath baseDirectory language before rpl s) = Inr rpl1"
    and "endswith f [''py'', ''cs'']"
    and "eng (engine_command dataPath language (stem f)
               (algorithm_location baseDirectory language f))
           (world (snd (benchmark_files eng dataPath baseDirectory language before rpl s))) = Some w"
    and "files w (algorithm_logs (stem f)) = Some (Text logText)"
    and "fst (scrape logText) = [] \<or> snd (scrape logText) = []"
  shows "benchmark_files eng dataPath baseDirectory language (before @ f # after) rpl s =
           (Inl StatisticsError,
            \<lparr>world = w,
             trace = trace (snd (benchmark_files eng dataPath baseDirectory language before rpl s)) @
               algorithm_events dataPath baseDirectory language f\<rparr>)"
proof -
  obtain s1 where b: "benchmark_files eng dataPath baseDirectory language before rpl s = (Inr rpl1, s1)"
    using assms(1) by (cases "benchmark_files eng dataPath baseDirectory language before rpl s") simp
  have "benchmark_algorithm eng dataPath baseDirectory language f rpl1 s1 =
      (Inl StatisticsError,
       \<lparr>world = w, trace = trace s1 @ algorithm_events dataPath baseDirectory language f\<rparr>)"
    using assms(3-5) unfolding b
    by (auto simp: benchmark_algorithm_eq Let_def mean_def algorithm_events_def)
  then show ?thesis
    using assms(2) by (simp add: benchmark_files_append b)
qed

lemma schedule_runs:
  "filter is_run (schedule dataPath baseDirectory language fs) =
     map (\<lambda>f. Run (engine_command dataPath language (stem f)
                     (algorithm_location baseDirectory language f))) fs"
  by (induction fs) (simp_all add: schedule_def algorithm_events_def)

lemma main_success_trace:
  assumes "fst (main eng argv s) = Inr results"
  shows "\<exists>ns1 ns2 r1 r2.
           results = [(''CSharp'', JObject r1), (''Python'', JObject r2)] \<and>
           dirs (world s) ''Algorithm.CSharp/Benchmarks'' = Some ns1 \<and>
           dirs (world (snd (benchmark_directory eng (data_path argv)
                               ''Algorithm.CSharp/Benchmarks'' [] s)))
             ''Algorithm.Python/Benchmarks'' = Some ns2 \<and>
           map fst r1 = insertion_order (map stem (candidates ns1)) \<and>
           map fst r2 = insertion_order (map stem (candidates ns2)) \<and>
           list_all (\<lambda>kv. is_metric (snd kv)) r1 \<and>
           list_all (\<lambda>kv. is_metric (snd kv)) r2 \<and>
           trace (snd (main eng argv s)) = trace s @
             Listdir ''Algorithm.CSharp/Benchmarks'' #
             schedule (data_path argv) ''Algorithm.CSharp/Benchmarks'' ''CSharp'' (candidates ns1) @
             Listdir ''Algorithm.Python/Benchmarks'' #
             schedule (data_path argv) ''Algorithm.Python/Benchmarks'' ''Python'' (candidates ns2) @
             [Open output_file ''w'', Write output_file (JObject results), Close output_file]"
proof -
  from main_success [OF assms] obtain s2 where
    d: "benchmark_directories eng (data_path argv) base_directories [] s = (Inr results, s2)"
    and t: "trace (snd (main eng argv s)) = trace s2 @
      [Open output_file ''w'', Write output_file (JObject results), Close output_file]"
    by blast
  from directories_success [OF d] obtain ns1 ns2 r1 r2 where
    "results = [(''CSharp'', JObject r1), (''Python'', JObject r2)]"
    "dirs (world s) ''Algorithm.CSharp/Benchmarks'' = Some ns1"
    "dirs (world (snd (benchmark_directory eng (data_path argv)
       ''Algorithm.CSharp/Benchmarks'' [] s))) ''Algorithm.Python/Benchmarks'' = Some ns2"
    "map fst r1 = insertion_order (map stem (candidates ns1))"
    "map fst r2 = insertion_order (map stem (candidates ns2))"
    "list_all (\<lambda>kv. is_metric (snd kv)) r1"
    "list_all (\<lambda>kv. is_metric (snd kv)) r2"
    "trace s2 = trace s @
       Listdir ''Algorithm.CSharp/Benchmarks'' #
       schedule (data_path argv) ''Algorithm.CSharp/Benchmarks'' ''CSharp'' (candidates ns1) @
       Listdir ''Algorithm.Python/Benchmarks'' #
       schedule (data_path argv) ''Algorithm.Python/Benchmarks'' ''Python'' (candidates ns2)"
    by blast
  then show ?thesis
    unfolding t by (intro exI [of _ ns1] exI [of _ ns2] exI [of _ r1] exI [of _ r2]) simp
qed

lemma is_results_document_iff:
  "is_results_document (JObject [(k1, JObject r1), (k2, JObject r2)]) \<longleftrightarrow>
     list_all (\<lambda>kv. is_metric (snd kv)) r1 \<and> list_all (\<lambda>kv. is_metric (snd kv)) r2"
  by (simp add: is_results_document_def)

lemma main_runs:
  assumes "Run cmd \<in> set (trace (snd (main eng argv s)))" and "Run cmd \<notin> set (trace s)"
  shows "\<exists>base \<in> set base_directories. \<exists>f.
           cmd = engine_command (data_path argv) (projr (language_of base)) (stem f)
                   (algorithm_location base (projr (language_of base)) f)"
proof -
  obtain r s' where d: "benchmark_directories eng (data_path argv) base_directories [] s = (r, s')"
    by (cases "benchmark_directories eng (data_path argv) base_directories [] s")
  have "\<forall>base \<in> set base_directories. \<not> isl (language_of base)"
    by (simp add: base_directories_def language_of_base_directories)
  from directories_events [OF d this] obtain evs where evs: "trace s' = trace s @ evs"
    "\<forall>ev \<in> set evs. \<exists>base \<in> set base_directories. \<exists>names.
       ev = Listdir base \<or>
       ev \<in> set (schedule (data_path argv) base (projr (language_of base)) (candidates names))"
    by blast
  have "Run cmd \<in> set (trace s')"
    using assms(1) unfolding main_eq d by (cases r) (auto split: if_splits)
  then have "Run cmd \<in> set evs"
    using assms(2) evs(1) by simp
  then obtain base names where base: "base \<in> set base_directories"
    and "Run cmd \<in> set (schedule (data_path argv) base (projr (language_of base)) (candidates names))"
    using evs(2) by blast
  then obtain f where
    "Run cmd \<in> set (algorithm_events (data_path argv) base (projr (language_of base)) f)"
    using schedule_events by blast
  then have "cmd = engine_command (data_path argv) (projr (language_of base)) (stem f)
      (algorithm_location base (projr (language_of base)) f)"
    by (simp add: algorithm_events_def)
  then show ?thesis
    using base by blast
qed

lemma schedule_no_close: "filter is_close (schedule dataPath baseDirectory language fs) = []"
  by (induction fs) (simp_all add: schedule_def algorithm_events_def)

lemma directories_no_close:
  assumes "benchmark_directories eng dataPath base_directories results s = (r, s')"
  shows "filter is_close (trace s') = filter is_close (trace s)"
proof -
  have "\<forall>base \<in> set base_directories. \<not> isl (language_of base)"
    by (simp add: base_directories_def language_of_base_directories)
  from directories_events [OF assms this] obtain evs where evs: "trace s' = trace s @ evs"
    "\<forall>ev \<in> set evs. \<exists>base \<in> set base_directories. \<exists>names.
       ev = Listdir base \<or>
       ev \<in> set (schedule dataPath base (projr (language_of base)) (candidates names))"
    by blast
  have "\<not> is_close ev" if ev: "ev \<in> set evs" for ev
  proof -
    obtain base names where c: "ev = Listdir base \<or>
        ev \<in> set (schedule dataPath base (projr (language_of base)) (candidates names))"
      using evs(2) ev by blast
    have "\<forall>x \<in> set (schedule dataPath base (projr (language_of base)) (candidates names)).
        \<not> is_close x"
      using schedule_no_close [of dataPath base "projr (language_of base)" "candidates names"]
      by (simp add: filter_empty_conv)
    then show ?thesis
      using c by auto
  qed
  then have "filter is_close evs = []"
    by (simp add: filter_empty_conv)
  then show ?thesis
    using evs(1) by simp
qed

lemma main_closes:
  "filter is_close (trace (snd (main eng argv s))) =
     filter is_close (trace s) @
     (case fst (main eng argv s) of
        Inl e \<Rightarrow> []
      | Inr results \<Rightarrow> [Close output_file])"
proof -
  obtain r s' where d: "benchmark_directories eng (data_path argv) base_directories [] s = (r, s')"
    by (cases "benchmark_directories eng (data_path argv) base_directories [] s")
  have "filter is_close (trace s') = filter is_close (trace s)"
    using d by (rule directories_no_close)
  then show ?thesis
    unfolding main_eq d by (cases r) simp_all
qed

section \<open>The properties\<close>

text \<open>
  C1.  The claim is that an algorithm whose log gives no samples is recorded as failed and
  the others are still benchmarked and persisted.  The script has no handler around
  \<^verbatim>\<open>statistics.mean\<close>: with \<open>Alpha\<close> (a log with both lines) and \<open>Beta\<close> (an empty log) it
  ends with StatisticsError and writes nothing, so Alpha's result is lost.
\<close>

theorem failure_isolation_counterexample:
  "fst (main (example_engine (logs_for [(''Alpha'', Text good_log), (''Beta'', Text [])])) []
          (start (example_world [''Alpha.cs'', ''Beta.cs''] []))) = Inl StatisticsError \<and>
   filter is_write
     (trace (snd (main (example_engine (logs_for [(''Alpha'', Text good_log), (''Beta'', Text [])])) []
                    (start (example_world [''Alpha.cs'', ''Beta.cs''] []))))) = []"
  by code_simp

text \<open>
  C1, as the script has it.  Failures are not isolated.  When, in any benchmark directory,
  the algorithms before \<open>f\<close> were benchmarked and the log of \<open>f\<close> gives an empty throughput
  or duration sequence, the loop over the directories ends at \<open>f\<close> with StatisticsError:
  the trace stops behind the opening of that log, so no later algorithm and no later
  directory is touched and no entry is recorded for \<open>f\<close>.  A run whose loops end with an
  exception ends there, with that exception, and has written no output: the results of the
  algorithms that succeeded are not persisted.
\<close>

theorem empty_samples_abort_the_run:
  assumes "language_of baseDirectory = Inr language"
    and "dirs (world s) baseDirectory = Some names"
    and "candidates names = before @ f # after"
    and "fst (benchmark_files eng dataPath baseDirectory language before []
               (emit [Listdir baseDirectory] s)) = Inr rpl1"
    and "eng (engine_command dataPath language (stem f)
               (algorithm_location baseDirectory language f))
           (world (snd (benchmark_files eng dataPath baseDirectory language before []
                          (emit [Listdir baseDirectory] s)))) = Some w"
    and "files w (algorithm_logs (stem f)) = Some (Text logText)"
    and "fst (scrape logText) = [] \<or> snd (scrape logText) = []"
  shows "fst (benchmark_directories eng dataPath (baseDirectory # rest) results s) =
           Inl StatisticsError \<and>
         trace (snd (benchmark_directories eng dataPath (baseDirectory # rest) results s)) =
           trace s @ Listdir baseDirectory # schedule dataPath baseDirectory language before @
             algorithm_events dataPath baseDirectory language f \<and>
         (\<forall>argv s0 e.
            fst (benchmark_directories eng (data_path argv) base_directories [] s0) = Inl e \<longrightarrow>
            main eng argv s0 = benchmark_directories eng (data_path argv) base_directories [] s0 \<and>
            filter is_write (trace (snd (main eng argv s0))) = filter is_write (trace s0))"
proof -
  let ?s1 = "emit [Listdir baseDirectory] s"
  have ok: "endswith f [''py'', ''cs'']"
  proof -
    have "f \<in> set (candidates names)"
      by (simp add: assms(3))
    then show ?thesis
      by (simp add: candidates_def)
  qed
  have "filter (\<lambda>f. endswith f [''py'', ''cs'']) before = before"
  proof -
    have "set before \<subseteq> set (candidates names)"
      by (auto simp: assms(3))
    then show ?thesis
      by (auto simp: candidates_def filter_id_conv)
  qed
  then have tr: "trace (snd (benchmark_files eng dataPath baseDirectory language before [] ?s1)) =
      trace s @ Listdir baseDirectory # schedule dataPath baseDirectory language before"
    using files_success_trace [OF assms(4)] by (simp add: emit_def)
  have files: "benchmark_files eng dataPath baseDirectory language (candidates names) [] ?s1 =
      (Inl StatisticsError,
       \<lparr>world = w,
        trace = trace s @ Listdir baseDirectory # schedule dataPath baseDirectory language before @
          algorithm_events dataPath baseDirectory language f\<rparr>)"
    unfolding assms(3) using files_abort [OF assms(4) ok assms(5-7), of after] tr by simp
  have "benchmark_directory eng dataPath baseDirectory results s =
      (Inl StatisticsError,
       \<lparr>world = w,
        trace = trace s @ Listdir baseDirectory # schedule dataPath baseDirectory language before @
          algorithm_events dataPath baseDirectory language f\<rparr>)"
    by (simp add: benchmark_directory_eq assms(1,2) files)
  then have 1: "fst (benchmark_directories eng dataPath (baseDirectory # rest) results s) =
      Inl StatisticsError"
    and 2: "trace (snd (benchmark_directories eng dataPath (baseDirectory # rest) results s)) =
      trace s @ Listdir baseDirectory # schedule dataPath baseDirectory language before @
        algorithm_events dataPath baseDirectory language f"
    by simp_all
  have 3: "main eng argv s0 = benchmark_directories eng (data_path argv) base_directories [] s0 \<and>
      filter is_write (trace (snd (main eng argv s0))) = filter is_write (trace s0)"
    if e: "fst (benchmark_directories eng (data_path argv) base_directories [] s0) = Inl e"
    for argv s0 e
  proof -
    obtain s' where d: "benchmark_directories eng (data_path argv) base_directories [] s0 = (Inl e, s')"
      using e by (cases "benchmark_directories eng (data_path argv) base_directories [] s0") simp
    then have m: "main eng argv s0 = benchmark_directories eng (data_path argv) base_directories [] s0"
      by (simp add: main_eq)
    moreover have "filter is_write (trace s') = filter is_write (trace s0)"
      using d by (rule directories_no_write)
    ultimately show ?thesis
      by (simp add: d)
  qed
  show ?thesis
    using 1 2 3 by blast
qed


theorem empty_samples_abort_the_run_witness:
  "candidates [''Alpha.cs'', ''Beta.cs''] = [''Alpha.cs''] @ ''Beta.cs'' # [] \<and>
   fst (benchmark_files (example_engine (logs_for [(''Alpha'', Text good_log), (''Beta'', Text [])]))
          ''../../../Data'' ''Algorithm.CSharp/Benchmarks'' ''CSharp'' [''Alpha.cs''] []
          (emit [Listdir ''Algorithm.CSharp/Benchmarks'']
             (start (example_world [''Alpha.cs'', ''Beta.cs''] [])))) =
     Inr [(''Alpha'', metric 10 [10] 5)] \<and>
   fst (benchmark_directories (example_engine (logs_for [(''Alpha'', Text good_log), (''Beta'', Text [])]))
          ''../../../Data'' [''Algorithm.CSharp/Benchmarks'', ''Algorithm.Python/Benchmarks''] []
          (start (example_world [''Alpha.cs'', ''Beta.cs''] []))) = Inl StatisticsError \<and>
   trace (snd (benchmark_directories
                 (example_engine (logs_for [(''Alpha'', Text good_log), (''Beta'', Text [])]))
                 ''../../../Data'' [''Algorithm.CSharp/Benchmarks'', ''Algorithm.Python/Benchmarks''] []
                 (start (example_world [''Alpha.cs'', ''Beta.cs''] [])))) =
     [Listdir ''Algorithm.CSharp/Benchmarks'',
      Run (engine_command ''../../../Data'' ''CSharp'' ''Alpha'' ''QuantConnect.Algorithm.CSharp.dll''),
      Open ''./Launcher/bin/Release/Alpha-log.txt'' ''r'',
      Run (engine_command ''../../../Data'' ''CSharp'' ''Beta'' ''QuantConnect.Algorithm.CSharp.dll''),
      Open ''./Launcher/bin/Release/Beta-log.txt'' ''r''] \<and>
   filter is_write
     (trace (snd (main (example_engine (logs_for [(''Alpha'', Text good_log), (''Beta'', Text [])])) []
                    (start (example_world [''Alpha.cs'', ''Beta.cs''] []))))) = []"
proof -
  let ?logs = "logs_for [(''Alpha'', Text good_log), (''Beta'', Text [])]"
  let ?eng = "example_engine ?logs"
  let ?cs = "''Algorithm.CSharp/Benchmarks''" and ?py = "''Algorithm.Python/Benchmarks''"
  let ?s = "start (example_world [''Alpha.cs'', ''Beta.cs''] [])"
  let ?before = "benchmark_files ?eng ''../../../Data'' ?cs ''CSharp'' [''Alpha.cs''] []
    (emit [Listdir ?cs] ?s)"
  let ?w = "world (snd ?before) \<lparr>files := ?logs\<rparr>"
  have h2: "dirs (world ?s) ?cs = Some [''Alpha.cs'', ''Beta.cs'']"
    by code_simp
  have h3: "candidates [''Alpha.cs'', ''Beta.cs''] = [''Alpha.cs''] @ ''Beta.cs'' # []"
    by code_simp
  have h4: "fst ?before = Inr [(''Alpha'', metric 10 [10] 5)]"
    by code_simp
  have h5: "?eng (engine_command ''../../../Data'' ''CSharp'' (stem ''Beta.cs'')
      (algorithm_location ?cs ''CSharp'' ''Beta.cs'')) (world (snd ?before)) = Some ?w"
    by (simp add: example_engine_def)
  have "?logs (algorithm_logs (stem ''Beta.cs'')) = Some (Text [])"
    by code_simp
  then have h6: "files ?w (algorithm_logs (stem ''Beta.cs'')) = Some (Text [])"
    by simp
  have h7: "fst (scrape []) = [] \<or> snd (scrape []) = []"
    by (simp add: scrape_def)
  have events: "Listdir ?cs # schedule ''../../../Data'' ?cs ''CSharp'' [''Alpha.cs''] @
      algorithm_events ''../../../Data'' ?cs ''CSharp'' ''Beta.cs'' =
     [Listdir ?cs,
      Run (engine_command ''../../../Data'' ''CSharp'' ''Alpha'' ''QuantConnect.Algorithm.CSharp.dll''),
      Open ''./Launcher/bin/Release/Alpha-log.txt'' ''r'',
      Run (engine_command ''../../../Data'' ''CSharp'' ''Beta'' ''QuantConnect.Algorithm.CSharp.dll''),
      Open ''./Launcher/bin/Release/Beta-log.txt'' ''r'']"
    by code_simp
  have args: "data_path [] = ''../../../Data''" "base_directories = [?cs, ?py]" "trace ?s = []"
    by (simp_all add: data_path_def base_directories_def start_def)
  note inst = empty_samples_abort_the_run
    [where eng = ?eng and dataPath = "''../../../Data''" and baseDirectory = ?cs
       and language = "''CSharp''" and s = ?s and names = "[''Alpha.cs'', ''Beta.cs'']"
       and before = "[''Alpha.cs'']" and f = "''Beta.cs''" and after = "[]"
       and rest = "[?py]" and results = "[]",
     OF language_of_base_directories(1) h2 h3 h4 h5 h6 h7]
  from inst have 1: "fst (benchmark_directories ?eng ''../../../Data'' [?cs, ?py] [] ?s) =
      Inl StatisticsError"
    and 2: "trace (snd (benchmark_directories ?eng ''../../../Data'' [?cs, ?py] [] ?s)) =
      trace ?s @ Listdir ?cs # schedule ''../../../Data'' ?cs ''CSharp'' [''Alpha.cs''] @
        algorithm_events ''../../../Data'' ?cs ''CSharp'' ''Beta.cs''"
    and 3: "fst (benchmark_directories ?eng (data_path []) base_directories [] ?s) =
        Inl StatisticsError \<longrightarrow>
      filter is_write (trace (snd (main ?eng [] ?s))) = filter is_write (trace ?s)"
    by blast+
  show ?thesis
    using h3 h4 1 2 3 unfolding events args by simp
qed




text \<open>
  C4.  Aggregation over an empty sample sequence fails with an explicit error:
  \<^verbatim>\<open>statistics.mean\<close> of no data is a StatisticsError, never zero.  A log none of whose lines
  has an occurrence of either pattern scrapes to two empty sequences, and whenever the
  throughput sequence or the duration sequence of an algorithm's log is empty, the pass over
  that algorithm ends with StatisticsError instead of a result.
\<close>

theorem empty_samples_raise:
  assumes "eng (engine_command dataPath language (stem algorithmFile)
             (algorithm_location baseDirectory language algorithmFile)) (world s) = Some w"
    and "files w (algorithm_logs (stem algorithmFile)) = Some (Text logText)"
  shows "mean [] = Inl StatisticsError \<and>
         ((\<forall>line \<in> set (file_lines logText).
              dps_occurrences line = [] \<and> length_occurrences line = []) \<longrightarrow>
            scrape logText = ([], [])) \<and>
         (fst (scrape logText) = [] \<or> snd (scrape logText) = [] \<longrightarrow>
            fst (benchmark_algorithm eng dataPath baseDirectory language algorithmFile
                   resultsPerLanguage s) = Inl StatisticsError)"
proof (intro conjI impI)
  show "mean [] = Inl StatisticsError"
    by (simp add: mean_def)
next
  assume "\<forall>line \<in> set (file_lines logText).
    dps_occurrences line = [] \<and> length_occurrences line = []"
  then show "scrape logText = ([], [])"
    by (simp add: scrape_occurrences)
next
  assume "fst (scrape logText) = [] \<or> snd (scrape logText) = []"
  then show "fst (benchmark_algorithm eng dataPath baseDirectory language algorithmFile
      resultsPerLanguage s) = Inl StatisticsError"
    using assms by (auto simp: benchmark_algorithm_eq mean_def Let_def)
qed

theorem empty_samples_raise_witness:
  "example_engine (logs_for [(''Alpha'', Text good_log), (''Beta'', Text [])])
     (engine_command ''../../../Data'' ''CSharp'' (stem ''Beta.cs'')
       (algorithm_location ''Algorithm.CSharp/Benchmarks'' ''CSharp'' ''Beta.cs''))
     (world (start (example_world [''Beta.cs''] []))) =
     Some (example_world [''Beta.cs''] [] \<lparr>files := logs_for [(''Alpha'', Text good_log), (''Beta'', Text [])]\<rparr>) \<and>
   files (example_world [''Beta.cs''] [] \<lparr>files := logs_for [(''Alpha'', Text good_log), (''Beta'', Text [])]\<rparr>)
     (algorithm_logs (stem ''Beta.cs'')) = Some (Text []) \<and>
   scrape [] = ([], []) \<and>
   fst (benchmark_algorithm (example_engine (logs_for [(''Alpha'', Text good_log), (''Beta'', Text [])])) ''../../../Data''
          ''Algorithm.CSharp/Benchmarks'' ''CSharp'' ''Beta.cs'' []
          (start (example_world [''Beta.cs''] []))) = Inl StatisticsError"
proof -
  let ?w = "example_world [''Beta.cs''] [] \<lparr>files := logs_for [(''Alpha'', Text good_log), (''Beta'', Text [])]\<rparr>"
  have ran: "example_engine (logs_for [(''Alpha'', Text good_log), (''Beta'', Text [])])
     (engine_command ''../../../Data'' ''CSharp'' (stem ''Beta.cs'')
       (algorithm_location ''Algorithm.CSharp/Benchmarks'' ''CSharp'' ''Beta.cs''))
     (world (start (example_world [''Beta.cs''] []))) = Some ?w"
    by (simp add: example_engine_def start_def)
  have "logs_for [(''Alpha'', Text good_log), (''Beta'', Text [])] (algorithm_logs (stem ''Beta.cs'')) =
      Some (Text [])"
    by code_simp
  then have log: "files ?w (algorithm_logs (stem ''Beta.cs'')) = Some (Text [])"
    by simp
  have none: "\<forall>line \<in> set (file_lines []). dps_occurrences line = [] \<and> length_occurrences line = []"
    by simp
  have empty: "fst (scrape []) = [] \<or> snd (scrape []) = []"
    by (simp add: scrape_def)
  show ?thesis
    using empty_samples_raise
      [where eng = "example_engine (logs_for [(''Alpha'', Text good_log), (''Beta'', Text [])])" and dataPath = "''../../../Data''"
         and language = "''CSharp''" and algorithmFile = "''Beta.cs''"
         and baseDirectory = "''Algorithm.CSharp/Benchmarks''"
         and s = "start (example_world [''Beta.cs''] [])" and resultsPerLanguage = "[]",
       OF ran log]
      ran log none empty by blast
qed



text \<open>
  C6.  The claim is that in every execution the engine is run exactly once for each
  discovered candidate.  An execution that ends with an exception leaves the candidates
  behind the failure without a run: with \<open>Alpha\<close> (an empty log) and \<open>Beta\<close> both in the
  listing, the only run is Alpha's.
\<close>

theorem run_per_candidate_counterexample:
  "candidates [''Alpha.cs'', ''Beta.cs''] = [''Alpha.cs'', ''Beta.cs''] \<and>
   filter is_run
     (trace (snd (main (example_engine (logs_for [(''Alpha'', Text []), (''Beta'', Text good_log)])) []
                    (start (example_world [''Alpha.cs'', ''Beta.cs''] []))))) =
     [Run (engine_command ''../../../Data'' ''CSharp'' ''Alpha'' ''QuantConnect.Algorithm.CSharp.dll'')]"
  by code_simp

text \<open>
  C6, as the script has it.  In every execution that runs to its end, the trace is: the
  listing of the C# directory, then for each of its candidates, in order, one run of the
  engine and one opening of its log, then the same for the Python directory, then the
  writing of the output.  So the runs of the engine are exactly one for each candidate, in
  the order of discovery.  In any execution, the pass over a directory whose listing can
  be read does an initial part of that sequence, and all of it when the pass ends without
  an exception: no candidate is run twice, and none behind a failure.
\<close>

theorem one_engine_run_per_candidate:
  "(fst (main eng argv s) = Inr results \<longrightarrow>
      (\<exists>ns1 ns2.
         dirs (world s) ''Algorithm.CSharp/Benchmarks'' = Some ns1 \<and>
         dirs (world (snd (benchmark_directory eng (data_path argv)
                             ''Algorithm.CSharp/Benchmarks'' [] s)))
           ''Algorithm.Python/Benchmarks'' = Some ns2 \<and>
         trace (snd (main eng argv s)) = trace s @
           Listdir ''Algorithm.CSharp/Benchmarks'' #
           schedule (data_path argv) ''Algorithm.CSharp/Benchmarks'' ''CSharp'' (candidates ns1) @
           Listdir ''Algorithm.Python/Benchmarks'' #
           schedule (data_path argv) ''Algorithm.Python/Benchmarks'' ''Python'' (candidates ns2) @
           [Open output_file ''w'', Write output_file (JObject results), Close output_file] \<and>
         filter is_run (trace (snd (main eng argv s))) = filter is_run (trace s) @
           map (\<lambda>f. Run (engine_command (data_path argv) ''CSharp'' (stem f)
                           (algorithm_location ''Algorithm.CSharp/Benchmarks'' ''CSharp'' f)))
             (candidates ns1) @
           map (\<lambda>f. Run (engine_command (data_path argv) ''Python'' (stem f)
                           (algorithm_location ''Algorithm.Python/Benchmarks'' ''Python'' f)))
             (candidates ns2))) \<and>
   (\<forall>dataPath baseDirectory language results0 (s0::state) names.
      language_of baseDirectory = Inr language \<and> dirs (world s0) baseDirectory = Some names \<longrightarrow>
      (\<exists>evs. trace (snd (benchmark_directory eng dataPath baseDirectory results0 s0)) =
           trace s0 @ evs \<and>
         prefix evs (Listdir baseDirectory #
           schedule dataPath baseDirectory language (candidates names)) \<and>
         (\<not> isl (fst (benchmark_directory eng dataPath baseDirectory results0 s0)) \<longrightarrow>
            evs = Listdir baseDirectory #
              schedule dataPath baseDirectory language (candidates names))))"
proof (intro conjI impI allI)
  assume ok: "fst (main eng argv s) = Inr results"
  from main_success_trace [OF ok] obtain ns1 ns2 where
    n1: "dirs (world s) ''Algorithm.CSharp/Benchmarks'' = Some ns1"
    and n2: "dirs (world (snd (benchmark_directory eng (data_path argv)
        ''Algorithm.CSharp/Benchmarks'' [] s))) ''Algorithm.Python/Benchmarks'' = Some ns2"
    and t: "trace (snd (main eng argv s)) = trace s @
        Listdir ''Algorithm.CSharp/Benchmarks'' #
        schedule (data_path argv) ''Algorithm.CSharp/Benchmarks'' ''CSharp'' (candidates ns1) @
        Listdir ''Algorithm.Python/Benchmarks'' #
        schedule (data_path argv) ''Algorithm.Python/Benchmarks'' ''Python'' (candidates ns2) @
        [Open output_file ''w'', Write output_file (JObject results), Close output_file]"
    by blast
  have "filter is_run (trace (snd (main eng argv s))) = filter is_run (trace s) @
      map (\<lambda>f. Run (engine_command (data_path argv) ''CSharp'' (stem f)
                      (algorithm_location ''Algorithm.CSharp/Benchmarks'' ''CSharp'' f)))
        (candidates ns1) @
      map (\<lambda>f. Run (engine_command (data_path argv) ''Python'' (stem f)
                      (algorithm_location ''Algorithm.Python/Benchmarks'' ''Python'' f)))
        (candidates ns2)"
    unfolding t by (simp add: schedule_runs)
  then show "\<exists>ns1 ns2.
         dirs (world s) ''Algorithm.CSharp/Benchmarks'' = Some ns1 \<and>
         dirs (world (snd (benchmark_directory eng (data_path argv)
                             ''Algorithm.CSharp/Benchmarks'' [] s)))
           ''Algorithm.Python/Benchmarks'' = Some ns2 \<and>
         trace (snd (main eng argv s)) = trace s @
           Listdir ''Algorithm.CSharp/Benchmarks'' #
           schedule (data_path argv) ''Algorithm.CSharp/Benchmarks'' ''CSharp'' (candidates ns1) @
           Listdir ''Algorithm.Python/Benchmarks'' #
           schedule (data_path argv) ''Algorithm.Python/Benchmarks'' ''Python'' (candidates ns2) @
           [Open output_file ''w'', Write output_file (JObject results), Close output_file] \<and>
         filter is_run (trace (snd (main eng argv s))) = filter is_run (trace s) @
           map (\<lambda>f. Run (engine_command (data_path argv) ''CSharp'' (stem f)
                           (algorithm_location ''Algorithm.CSharp/Benchmarks'' ''CSharp'' f)))
             (candidates ns1) @
           map (\<lambda>f. Run (engine_command (data_path argv) ''Python'' (stem f)
                           (algorithm_location ''Algorithm.Python/Benchmarks'' ''Python'' f)))
             (candidates ns2)"
    using n1 n2 t by blast
next
  fix dataPath baseDirectory language results0 and s0 :: state and names
  assume a: "language_of baseDirectory = Inr language \<and> dirs (world s0) baseDirectory = Some names"
  obtain r s' where d: "benchmark_directory eng dataPath baseDirectory results0 s0 = (r, s')"
    by (cases "benchmark_directory eng dataPath baseDirectory results0 s0")
  from directory_trace [OF d] a
  show "\<exists>evs. trace (snd (benchmark_directory eng dataPath baseDirectory results0 s0)) =
           trace s0 @ evs \<and>
         prefix evs (Listdir baseDirectory #
           schedule dataPath baseDirectory language (candidates names)) \<and>
         (\<not> isl (fst (benchmark_directory eng dataPath baseDirectory results0 s0)) \<longrightarrow>
            evs = Listdir baseDirectory #
              schedule dataPath baseDirectory language (candidates names))"
    unfolding d by auto
qed

theorem one_engine_run_per_candidate_witness:
  "fst (main (example_engine (logs_for [(''Alpha'', Text good_log), (''Beta'', Text good_log)])) []
          (start (example_world [''Beta.cs'', ''Alpha.cs''] [''Alpha.py'', ''notes.txt'']))) =
     Inr [(''CSharp'', JObject [(''Alpha'', metric 10 [10] 5), (''Beta'', metric 10 [10] 5)]),
          (''Python'', JObject [(''Alpha'', metric 10 [10] 5)])] \<and>
   (\<exists>ns1 ns2.
      trace (snd (main (example_engine (logs_for [(''Alpha'', Text good_log), (''Beta'', Text good_log)])) []
                    (start (example_world [''Beta.cs'', ''Alpha.cs''] [''Alpha.py'', ''notes.txt''])))) =
        trace (start (example_world [''Beta.cs'', ''Alpha.cs''] [''Alpha.py'', ''notes.txt''])) @
        Listdir ''Algorithm.CSharp/Benchmarks'' #
        schedule (data_path []) ''Algorithm.CSharp/Benchmarks'' ''CSharp'' (candidates ns1) @
        Listdir ''Algorithm.Python/Benchmarks'' #
        schedule (data_path []) ''Algorithm.Python/Benchmarks'' ''Python'' (candidates ns2) @
        [Open output_file ''w'',
         Write output_file
           (JObject [(''CSharp'', JObject [(''Alpha'', metric 10 [10] 5), (''Beta'', metric 10 [10] 5)]),
                     (''Python'', JObject [(''Alpha'', metric 10 [10] 5)])]),
         Close output_file])"
proof -
  have ok: "fst (main (example_engine (logs_for [(''Alpha'', Text good_log), (''Beta'', Text good_log)])) []
          (start (example_world [''Beta.cs'', ''Alpha.cs''] [''Alpha.py'', ''notes.txt'']))) =
     Inr [(''CSharp'', JObject [(''Alpha'', metric 10 [10] 5), (''Beta'', metric 10 [10] 5)]),
          (''Python'', JObject [(''Alpha'', metric 10 [10] 5)])]"
    by code_simp
  from one_engine_run_per_candidate [THEN conjunct1, rule_format, OF ok] ok show ?thesis
    by blast
qed

text \<open>
  C7.  The output is written at most once in any execution, and exactly once in one that
  runs to its end: then the writing (open, dump, close) of \<^verbatim>\<open>benchmark_results.json\<close>, a
  name without a directory, is the last thing the script does, and what is written is the
  final \<^verbatim>\<open>results\<close>.  That document has the shape language, algorithm name, metric, with
  the languages \<open>CSharp\<close>, \<open>Python\<close> in this order and under each the algorithm names in the
  order of their discovery (a name met twice keeps its first place).
\<close>

theorem output_written_once_at_the_end:
  "filter is_write (trace (snd (main eng argv s))) =
     filter is_write (trace s) @
     (case fst (main eng argv s) of
        Inl e \<Rightarrow> []
      | Inr results \<Rightarrow> [Write ''benchmark_results.json'' (JObject results)]) \<and>
   (\<forall>results. fst (main eng argv s) = Inr results \<longrightarrow>
      is_results_document (JObject results) \<and>
      (\<exists>evs. trace (snd (main eng argv s)) =
           trace s @ evs @
           [Open ''benchmark_results.json'' ''w'',
            Write ''benchmark_results.json'' (JObject results),
            Close ''benchmark_results.json''] \<and>
         filter is_write evs = []) \<and>
      (\<exists>ns1 ns2 r1 r2.
         results = [(''CSharp'', JObject r1), (''Python'', JObject r2)] \<and>
         dirs (world s) ''Algorithm.CSharp/Benchmarks'' = Some ns1 \<and>
         dirs (world (snd (benchmark_directory eng (data_path argv)
                             ''Algorithm.CSharp/Benchmarks'' [] s)))
           ''Algorithm.Python/Benchmarks'' = Some ns2 \<and>
         map fst r1 = insertion_order (map stem (candidates ns1)) \<and>
         map fst r2 = insertion_order (map stem (candidates ns2))))"
proof (intro conjI allI impI)
  show "filter is_write (trace (snd (main eng argv s))) =
     filter is_write (trace s) @
     (case fst (main eng argv s) of
        Inl e \<Rightarrow> []
      | Inr results \<Rightarrow> [Write ''benchmark_results.json'' (JObject results)])"
    using main_writes [of eng argv s] unfolding output_file_def .
next
  fix results
  assume ok: "fst (main eng argv s) = Inr results"
  from main_success_trace [OF ok] obtain ns1 ns2 r1 r2 where
    r: "results = [(''CSharp'', JObject r1), (''Python'', JObject r2)]"
    and n1: "dirs (world s) ''Algorithm.CSharp/Benchmarks'' = Some ns1"
    and n2: "dirs (world (snd (benchmark_directory eng (data_path argv)
       ''Algorithm.CSharp/Benchmarks'' [] s))) ''Algorithm.Python/Benchmarks'' = Some ns2"
    and k1: "map fst r1 = insertion_order (map stem (candidates ns1))"
    and k2: "map fst r2 = insertion_order (map stem (candidates ns2))"
    and m: "list_all (\<lambda>kv. is_metric (snd kv)) r1" "list_all (\<lambda>kv. is_metric (snd kv)) r2"
    and t: "trace (snd (main eng argv s)) = trace s @
       Listdir ''Algorithm.CSharp/Benchmarks'' #
       schedule (data_path argv) ''Algorithm.CSharp/Benchmarks'' ''CSharp'' (candidates ns1) @
       Listdir ''Algorithm.Python/Benchmarks'' #
       schedule (data_path argv) ''Algorithm.Python/Benchmarks'' ''Python'' (candidates ns2) @
       [Open output_file ''w'', Write output_file (JObject results), Close output_file]"
    by blast
  show "is_results_document (JObject results)"
    unfolding r using m by (simp add: is_results_document_iff)
  let ?evs = "Listdir ''Algorithm.CSharp/Benchmarks'' #
       schedule (data_path argv) ''Algorithm.CSharp/Benchmarks'' ''CSharp'' (candidates ns1) @
       Listdir ''Algorithm.Python/Benchmarks'' #
       schedule (data_path argv) ''Algorithm.Python/Benchmarks'' ''Python'' (candidates ns2)"
  have "trace (snd (main eng argv s)) = trace s @ ?evs @
      [Open ''benchmark_results.json'' ''w'',
       Write ''benchmark_results.json'' (JObject results),
       Close ''benchmark_results.json'']"
    unfolding t by (simp add: output_file_def)
  moreover have "filter is_write ?evs = []"
    by (simp add: schedule_no_write)
  ultimately show "\<exists>evs. trace (snd (main eng argv s)) =
           trace s @ evs @
           [Open ''benchmark_results.json'' ''w'',
            Write ''benchmark_results.json'' (JObject results),
            Close ''benchmark_results.json''] \<and>
         filter is_write evs = []"
    by blast
  show "\<exists>ns1 ns2 r1 r2.
         results = [(''CSharp'', JObject r1), (''Python'', JObject r2)] \<and>
         dirs (world s) ''Algorithm.CSharp/Benchmarks'' = Some ns1 \<and>
         dirs (world (snd (benchmark_directory eng (data_path argv)
                             ''Algorithm.CSharp/Benchmarks'' [] s)))
           ''Algorithm.Python/Benchmarks'' = Some ns2 \<and>
         map fst r1 = insertion_order (map stem (candidates ns1)) \<and>
         map fst r2 = insertion_order (map stem (candidates ns2))"
    using r n1 n2 k1 k2 by blast
qed

theorem output_written_once_at_the_end_witness:
  "fst (main (example_engine (logs_for [(''Alpha'', Text good_log), (''Beta'', Text good_log)])) []
          (start (example_world [''Beta.cs'', ''Alpha.cs''] [''Alpha.py'', ''notes.txt'']))) =
     Inr [(''CSharp'', JObject [(''Alpha'', metric 10 [10] 5), (''Beta'', metric 10 [10] 5)]),
          (''Python'', JObject [(''Alpha'', metric 10 [10] 5)])] \<and>
   filter is_write
     (trace (snd (main (example_engine (logs_for [(''Alpha'', Text good_log), (''Beta'', Text good_log)])) []
                    (start (example_world [''Beta.cs'', ''Alpha.cs''] [''Alpha.py'', ''notes.txt'']))))) =
     [Write ''benchmark_results.json''
        (JObject [(''CSharp'', JObject [(''Alpha'', metric 10 [10] 5), (''Beta'', metric 10 [10] 5)]),
                  (''Python'', JObject [(''Alpha'', metric 10 [10] 5)])])] \<and>
   is_results_document
     (JObject [(''CSharp'', JObject [(''Alpha'', metric 10 [10] 5), (''Beta'', metric 10 [10] 5)]),
               (''Python'', JObject [(''Alpha'', metric 10 [10] 5)])])"
proof -
  let ?run = "main (example_engine (logs_for [(''Alpha'', Text good_log), (''Beta'', Text good_log)])) []
    (start (example_world [''Beta.cs'', ''Alpha.cs''] [''Alpha.py'', ''notes.txt'']))"
  let ?results = "[(''CSharp'', JObject [(''Alpha'', metric 10 [10] 5), (''Beta'', metric 10 [10] 5)]),
    (''Python'', JObject [(''Alpha'', metric 10 [10] 5)])]"
  have ok: "fst ?run = Inr ?results"
    by code_simp
  note inst = output_written_once_at_the_end
    [of "example_engine (logs_for [(''Alpha'', Text good_log), (''Beta'', Text good_log)])" "[]"
      "start (example_world [''Beta.cs'', ''Alpha.cs''] [''Alpha.py'', ''notes.txt''])"]
  have "trace (start (example_world [''Beta.cs'', ''Alpha.cs''] [''Alpha.py'', ''notes.txt''])) = []"
    by (simp add: start_def)
  with inst [THEN conjunct1] have "filter is_write (trace (snd ?run)) =
      [Write ''benchmark_results.json'' (JObject ?results)]"
    unfolding ok by simp
  moreover from inst ok have "is_results_document (JObject ?results)"
    by blast
  ultimately show ?thesis
    using ok by blast
qed

text \<open>
  C8.  Every run of the engine in any execution has the argument list \<^verbatim>\<open>dotnet\<close>,
  \<^verbatim>\<open>./QuantConnect.Lean.Launcher.dll\<close>, \<^verbatim>\<open>--data-folder\<close> with the data path,
  \<^verbatim>\<open>--algorithm-language\<close> with \<open>CSharp\<close> or \<open>Python\<close>, \<^verbatim>\<open>--algorithm-type-name\<close> with the
  algorithm's name, \<^verbatim>\<open>--algorithm-location\<close> with the library (C#) or the path of the file
  (Python), \<^verbatim>\<open>--log-handler ConsoleErrorLogHandler\<close> and \<^verbatim>\<open>--close-automatically true\<close>; its
  working directory is \<^verbatim>\<open>./Launcher/bin/Release\<close>, and its standard output and standard
  error go to DEVNULL.  The call is synchronous: it returns with the world as the engine
  left it.
\<close>

theorem engine_command_contract:
  assumes "Run cmd \<in> set (trace (snd (main eng argv s)))" and "Run cmd \<notin> set (trace s)"
  shows "(\<exists>language location algorithmFile.
            (language = ''CSharp'' \<and> location = ''QuantConnect.Algorithm.CSharp.dll'' \<or>
             language = ''Python'' \<and>
             location = os_path_join ''../../../'' [''Algorithm.Python/Benchmarks'', algorithmFile]) \<and>
            args cmd =
              [''dotnet'',
               ''./QuantConnect.Lean.Launcher.dll'',
               ''--data-folder '' @ data_path argv,
               ''--algorithm-language '' @ language,
               ''--algorithm-type-name '' @ stem algorithmFile,
               ''--algorithm-location '' @ location,
               ''--log-handler ConsoleErrorLogHandler'',
               ''--close-automatically true'']) \<and>
         cwd cmd = ''./Launcher/bin/Release'' \<and> stdout cmd = DEVNULL \<and> stderr cmd = DEVNULL \<and>
         (\<forall>c s0 w. eng c (world s0) = Some w \<longrightarrow>
            subprocess_run eng c s0 = (Inr (), \<lparr>world = w, trace = trace s0 @ [Run c]\<rparr>))"
proof -
  from main_runs [OF assms] obtain base f where base: "base \<in> set base_directories"
    and cmd: "cmd = engine_command (data_path argv) (projr (language_of base)) (stem f)
      (algorithm_location base (projr (language_of base)) f)"
    by blast
  from base consider "base = ''Algorithm.CSharp/Benchmarks''" | "base = ''Algorithm.Python/Benchmarks''"
    by (auto simp: base_directories_def)
  then have "\<exists>language location algorithmFile.
            (language = ''CSharp'' \<and> location = ''QuantConnect.Algorithm.CSharp.dll'' \<or>
             language = ''Python'' \<and>
             location = os_path_join ''../../../'' [''Algorithm.Python/Benchmarks'', algorithmFile]) \<and>
            args cmd =
              [''dotnet'',
               ''./QuantConnect.Lean.Launcher.dll'',
               ''--data-folder '' @ data_path argv,
               ''--algorithm-language '' @ language,
               ''--algorithm-type-name '' @ stem algorithmFile,
               ''--algorithm-location '' @ location,
               ''--log-handler ConsoleErrorLogHandler'',
               ''--close-automatically true'']"
  proof cases
    case 1
    have "args cmd =
        [''dotnet'', ''./QuantConnect.Lean.Launcher.dll'', ''--data-folder '' @ data_path argv,
         ''--algorithm-language '' @ ''CSharp'', ''--algorithm-type-name '' @ stem f,
         ''--algorithm-location '' @ ''QuantConnect.Algorithm.CSharp.dll'',
         ''--log-handler ConsoleErrorLogHandler'', ''--close-automatically true'']"
      unfolding cmd 1 language_of_base_directories
      by (simp add: engine_command_def algorithm_location_def)
    then show ?thesis
      by blast
  next
    case 2
    have "args cmd =
        [''dotnet'', ''./QuantConnect.Lean.Launcher.dll'', ''--data-folder '' @ data_path argv,
         ''--algorithm-language '' @ ''Python'', ''--algorithm-type-name '' @ stem f,
         ''--algorithm-location '' @ os_path_join ''../../../'' [''Algorithm.Python/Benchmarks'', f],
         ''--log-handler ConsoleErrorLogHandler'', ''--close-automatically true'']"
      unfolding cmd 2 language_of_base_directories
      by (simp add: engine_command_def algorithm_location_def)
    then show ?thesis
      by blast
  qed
  moreover have "cwd cmd = ''./Launcher/bin/Release''" "stdout cmd = DEVNULL" "stderr cmd = DEVNULL"
    by (simp_all add: cmd engine_command_def launcher_directory_def)
  moreover have "subprocess_run eng c s0 = (Inr (), \<lparr>world = w, trace = trace s0 @ [Run c]\<rparr>)"
    if "eng c (world s0) = Some w" for c s0 w
    using that by (cases s0) (simp add: subprocess_run_def emit_def)
  ultimately show ?thesis
    by blast
qed

theorem engine_command_contract_witness:
  "Run (engine_command ''/data'' ''Python'' ''Alpha'' ''../../../Algorithm.Python/Benchmarks/Alpha.py'')
     \<in> set (trace (snd (main (example_engine (logs_for [(''Alpha'', Text good_log)])) [''run_benchmarks.py'', ''/data'']
                          (start (example_world [] [''Alpha.py'']))))) \<and>
   (\<exists>language location algorithmFile.
      (language = ''CSharp'' \<and> location = ''QuantConnect.Algorithm.CSharp.dll'' \<or>
       language = ''Python'' \<and>
       location = os_path_join ''../../../'' [''Algorithm.Python/Benchmarks'', algorithmFile]) \<and>
      args (engine_command ''/data'' ''Python'' ''Alpha'' ''../../../Algorithm.Python/Benchmarks/Alpha.py'') =
        [''dotnet'',
         ''./QuantConnect.Lean.Launcher.dll'',
         ''--data-folder '' @ data_path [''run_benchmarks.py'', ''/data''],
         ''--algorithm-language '' @ language,
         ''--algorithm-type-name '' @ stem algorithmFile,
         ''--algorithm-location '' @ location,
         ''--log-handler ConsoleErrorLogHandler'',
         ''--close-automatically true''])"
proof -
  let ?cmd = "engine_command ''/data'' ''Python'' ''Alpha'' ''../../../Algorithm.Python/Benchmarks/Alpha.py''"
  let ?s = "start (example_world [] [''Alpha.py''])"
  have 1: "Run ?cmd \<in> set (trace (snd (main (example_engine (logs_for [(''Alpha'', Text good_log)]))
      [''run_benchmarks.py'', ''/data''] ?s)))"
    by code_simp
  have 2: "Run ?cmd \<notin> set (trace ?s)"
    by (simp add: start_def)
  from engine_command_contract [OF 1 2] 1 show ?thesis
    by blast
qed

text \<open>
  C9.  The claim is that each log file is closed before the next repetition or algorithm
  goes on, also after a read error.  The script opens the log with \<^verbatim>\<open>file = open(...)\<close>
  and never closes it, while the output file is opened in a \<^verbatim>\<open>with\<close> block: in every
  execution the only file ever closed is the output file, at the end of a run that
  completes.  In a run over \<open>Alpha\<close> and \<open>Beta\<close>, Beta's engine run follows the opening of
  Alpha's log directly; a run whose log cannot be read to its end stops with the error
  right behind the \<open>Open\<close>.
\<close>

theorem log_files_are_never_closed:
  "filter is_close (trace (snd (main eng argv s))) =
     filter is_close (trace s) @
     (case fst (main eng argv s) of
        Inl e \<Rightarrow> []
      | Inr results \<Rightarrow> [Close ''benchmark_results.json'']) \<and>
   trace (snd (main (example_engine (logs_for [(''Alpha'', Text good_log), (''Beta'', Text good_log)])) []
                 (start (example_world [''Alpha.cs'', ''Beta.cs''] [])))) =
     [Listdir ''Algorithm.CSharp/Benchmarks'',
      Run (engine_command ''../../../Data'' ''CSharp'' ''Alpha'' ''QuantConnect.Algorithm.CSharp.dll''),
      Open ''./Launcher/bin/Release/Alpha-log.txt'' ''r'',
      Run (engine_command ''../../../Data'' ''CSharp'' ''Beta'' ''QuantConnect.Algorithm.CSharp.dll''),
      Open ''./Launcher/bin/Release/Beta-log.txt'' ''r'',
      Listdir ''Algorithm.Python/Benchmarks'',
      Open ''benchmark_results.json'' ''w'',
      Write ''benchmark_results.json''
        (JObject [(''CSharp'', JObject [(''Alpha'', metric 10 [10] 5), (''Beta'', metric 10 [10] 5)]),
                  (''Python'', JObject [])]),
      Close ''benchmark_results.json''] \<and>
   fst (main (example_engine (logs_for [(''Alpha'', Broken ValueError)])) []
          (start (example_world [''Alpha.cs''] []))) = Inl ValueError \<and>
   trace (snd (main (example_engine (logs_for [(''Alpha'', Broken ValueError)])) []
                 (start (example_world [''Alpha.cs''] [])))) =
     [Listdir ''Algorithm.CSharp/Benchmarks'',
      Run (engine_command ''../../../Data'' ''CSharp'' ''Alpha'' ''QuantConnect.Algorithm.CSharp.dll''),
      Open ''./Launcher/bin/Release/Alpha-log.txt'' ''r'']"
proof (intro conjI)
  show "filter is_close (trace (snd (main eng argv s))) =
     filter is_close (trace s) @
     (case fst (main eng argv s) of
        Inl e \<Rightarrow> []
      | Inr results \<Rightarrow> [Close ''benchmark_results.json''])"
    using main_closes [of eng argv s] unfolding output_file_def .
qed code_simp+

text \<open>
  C10.  When the loops over both directories run to their end (both listings could be read
  and every algorithm was aggregated), \<^verbatim>\<open>results\<close> has exactly the keys \<open>CSharp\<close> and \<open>Python\<close>,
  in this order; a directory whose listing has no candidate gives its language the empty
  mapping.
\<close>

theorem both_languages_in_results:
  assumes "fst (benchmark_directories eng dataPath base_directories [] s) = Inr results"
  shows "map fst results = [''CSharp'', ''Python''] \<and>
         (\<exists>ns1 ns2 r1 r2.
            results = [(''CSharp'', JObject r1), (''Python'', JObject r2)] \<and>
            dirs (world s) ''Algorithm.CSharp/Benchmarks'' = Some ns1 \<and>
            dirs (world (snd (benchmark_directory eng dataPath ''Algorithm.CSharp/Benchmarks'' [] s)))
              ''Algorithm.Python/Benchmarks'' = Some ns2 \<and>
            (candidates ns1 = [] \<longrightarrow> r1 = []) \<and>
            (candidates ns2 = [] \<longrightarrow> r2 = []))"
proof -
  obtain s2 where "benchmark_directories eng dataPath base_directories [] s = (Inr results, s2)"
    using assms by (cases "benchmark_directories eng dataPath base_directories [] s") simp
  from directories_success [OF this] obtain ns1 ns2 r1 r2 where
    r: "results = [(''CSharp'', JObject r1), (''Python'', JObject r2)]"
    and n1: "dirs (world s) ''Algorithm.CSharp/Benchmarks'' = Some ns1"
    and n2: "dirs (world (snd (benchmark_directory eng dataPath ''Algorithm.CSharp/Benchmarks'' [] s)))
       ''Algorithm.Python/Benchmarks'' = Some ns2"
    and k1: "map fst r1 = insertion_order (map stem (candidates ns1))"
    and k2: "map fst r2 = insertion_order (map stem (candidates ns2))"
    by blast
  have "r1 = []" if "candidates ns1 = []"
    using k1 that by (simp add: insertion_order_def)
  moreover have "r2 = []" if "candidates ns2 = []"
    using k2 that by (simp add: insertion_order_def)
  ultimately show ?thesis
    using r n1 n2 by auto
qed

theorem both_languages_in_results_witness:
  "fst (benchmark_directories (example_engine (logs_for [(''Alpha'', Text good_log)])) ''../../../Data''
          base_directories [] (start (example_world [''Alpha.cs''] [''README.md'']))) =
     Inr [(''CSharp'', JObject [(''Alpha'', metric 10 [10] 5)]), (''Python'', JObject [])] \<and>
   map fst [(''CSharp'', JObject [(''Alpha'', metric 10 [10] 5)]), (''Python'', JObject [])] =
     [''CSharp'', ''Python''] \<and>
   candidates [''README.md''] = [] \<and>
   (\<exists>ns1 ns2 r1 r2.
      [(''CSharp'', JObject [(''Alpha'', metric 10 [10] 5)]), (''Python'', JObject [])] =
        [(''CSharp'', JObject r1), (''Python'', JObject r2)] \<and>
      dirs (world (start (example_world [''Alpha.cs''] [''README.md''])))
        ''Algorithm.CSharp/Benchmarks'' = Some ns1 \<and>
      dirs (world (snd (benchmark_directory (example_engine (logs_for [(''Alpha'', Text good_log)]))
                          ''../../../Data'' ''Algorithm.CSharp/Benchmarks'' []
                          (start (example_world [''Alpha.cs''] [''README.md'']))))) 
        ''Algorithm.Python/Benchmarks'' = Some ns2)"
proof -
  have ok: "fst (benchmark_directories (example_engine (logs_for [(''Alpha'', Text good_log)]))
      ''../../../Data'' base_directories [] (start (example_world [''Alpha.cs''] [''README.md'']))) =
     Inr [(''CSharp'', JObject [(''Alpha'', metric 10 [10] 5)]), (''Python'', JObject [])]"
    by code_simp
  have none: "candidates [''README.md''] = []"
    by code_simp
  from both_languages_in_results [OF ok] ok none show ?thesis
    by blast
qed

end
